theory Spec2Isabelle
  imports Main "HOL-Library.Sublist"
begin

section \<open>Values, errors and profile tables\<close>

text \<open>
  The module \<^verbatim>\<open>frame_filter.py\<close> holds two methods of the class \<^verbatim>\<open>FrameFilter\<close>:
  \<^verbatim>\<open>_frameFilter\<close> (the criterion filter) and \<^verbatim>\<open>match\<close> (the profile resolver). Both work on a
  pandas DataFrame. The embedding keeps a frame as a record of its schema and its rows, in
  order; every pandas call the source makes is a small function on that record.

  A selection value is what a caller passes as a criterion: \<^verbatim>\<open>None\<close>, a \<^verbatim>\<open>str\<close>, a compiled
  \<^verbatim>\<open>re.Pattern\<close> (kept as its pattern text; flags are not modelled), a list of \<^verbatim>\<open>str\<close>, or any
  other scalar (an \<^verbatim>\<open>int\<close>, say), which is never equal to a text cell.
\<close>

datatype sel =
    SelNone
  | SelStr string
  | SelPat string
  | SelList "string list"
  | SelOther int

text \<open>
  Every \<^verbatim>\<open>raise\<close> of the source is a constructor of its own; the exceptions that Python or
  pandas raise on the way (a missing column, a level that does not exist, a method a value
  does not have) are the \<open>Py\<close> constructors.
\<close>

datatype error =
    MatchNotApplicable
      \<comment> \<open>\<^verbatim>\<open>TypeError('match keyword only applies to DS (dataset) and GR ... ProfileFrames')\<close>\<close>
  | UnknownFilter string sel
      \<comment> \<open>\<^verbatim>\<open>TypeError("unknown selection filter(kwd=sel), try a column name ...")\<close>\<close>
  | UnknownFilterTry string sel "string list"
      \<comment> \<open>\<^verbatim>\<open>TypeError("unknown selection filter(kwd=sel), try {readableList(kwdValues.keys())}, or ...")\<close>\<close>
  | MatchOneParameter
      \<comment> \<open>\<^verbatim>\<open>TypeError('match keyword requires one parameter containing the data set name')\<close>\<close>
  | MatchClassAndName
      \<comment> \<open>\<^verbatim>\<open>TypeError('match keyword requires an optional resclass and a parameter ...')\<close>\<close>
  | NotQualified string
      \<comment> \<open>\<^verbatim>\<open>ValueError('fully qualified data set name expected, ..., not {sel}')\<close>\<close>
  | PyTypeError
  | PyAttributeError
  | PyIndexError
  | PyKeyError
  | PyValueError
  | PyUnboundLocalError

text \<open>
  The attribute \<^verbatim>\<open>_fieldPrefix\<close> of a frame: a plain frame has none
  (\<^verbatim>\<open>hasattr(df,'_fieldPrefix')\<close> is false), a profile frame that was loaded has the prefix of
  its columns, and a profile frame that pandas built anew from several frames
  (\<^verbatim>\<open>pd.concat\<close>) has the attribute with the value \<^verbatim>\<open>None\<close>.
\<close>

datatype prefix = Absent | NoneValue | Text string

text \<open>
  A row carries its index label (one text per index level) and its cells (one text per
  column, in the order of the frame's columns). A frame carries the attribute
  \<^verbatim>\<open>_fieldPrefix\<close>, the number of index levels
  (\<^verbatim>\<open>len(df.index.names)\<close>), its column names and its rows. Cells are text, as the profile
  tables are loaded; column names are taken to be distinct.
\<close>

record row =
  idx :: "string list"
  cells :: "string list"

record table =
  fieldPrefix :: prefix
  nlevels :: nat
  columns :: "string list"
  rows :: "row list"

text \<open>
  The collaborators that are not part of the module: \<^verbatim>\<open>generic2regex\<close> of
  \<^verbatim>\<open>racf_functions\<close>, and the regular expression engine behind \<^verbatim>\<open>re.match\<close>, \<^verbatim>\<open>str.match\<close>
  (both anchored at the start of the text) and \<^verbatim>\<open>str.contains\<close> (a search anywhere in the
  text). They are parameters of the model: \<open>re_match c p s\<close> reads
  \<^verbatim>\<open>re.match(p, s) != None\<close> and \<open>re_search c p s\<close> reads \<^verbatim>\<open>re.search(p, s) != None\<close>.
  Patterns are taken to compile.
\<close>

record collab =
  generic2regex :: "string \<Rightarrow> string"
  re_match :: "string \<Rightarrow> string \<Rightarrow> bool"
  re_search :: "string \<Rightarrow> string \<Rightarrow> bool"

section \<open>Python text operations\<close>

text \<open>\<^verbatim>\<open>s.find(ch)\<close>: the position of the first occurrence, or \<open>-1\<close>.\<close>

fun py_find :: "char \<Rightarrow> string \<Rightarrow> int" where
  "py_find ch [] = - 1"
| "py_find ch (x # xs) =
     (if x = ch then 0 else (let r = py_find ch xs in if r = - 1 then - 1 else r + 1))"

text \<open>
  \<^verbatim>\<open>len(sel)>2 and sel[0]=='*' and sel[-1]=='*' and sel[1:-1].find('*')==-1\<close>, and the text
  \<^verbatim>\<open>sel[1:-1]\<close> between the two stars.
\<close>

definition is_contains_pattern :: "string \<Rightarrow> bool" where
  "is_contains_pattern s \<longleftrightarrow>
     length s > 2 \<and> hd s = CHR ''*'' \<and> last s = CHR ''*''
     \<and> py_find (CHR ''*'') (butlast (tl s)) = - 1"

definition inner :: "string \<Rightarrow> string" where
  "inner s = butlast (tl s)"

text \<open>\<^verbatim>\<open>sel=='*' or (sel.find('*')==-1 and sel.find('%')==-1)\<close>\<close>

definition is_literal :: "string \<Rightarrow> bool" where
  "is_literal s \<longleftrightarrow>
     s = ''*'' \<or> (py_find (CHR ''*'') s = - 1 \<and> py_find (CHR ''%'') s = - 1)"

text \<open>\<^verbatim>\<open>any([s.find('*')>=0 or s.find('%')>=0 for s in sel])\<close>\<close>

definition any_generic :: "string list \<Rightarrow> bool" where
  "any_generic l \<longleftrightarrow>
     (\<exists>s \<in> set l. py_find (CHR ''*'') s \<ge> 0 \<or> py_find (CHR ''%'') s \<ge> 0)"

text \<open>\<^verbatim>\<open>sep.join(parts)\<close>\<close>

fun join :: "string \<Rightarrow> string list \<Rightarrow> string" where
  "join sep [] = []"
| "join sep [x] = x"
| "join sep (x # y # ys) = x @ sep @ join sep (y # ys)"

text \<open>
  \<^verbatim>\<open>repr\<close> of a text, as \<^verbatim>\<open>str\<close> of a tuple shows its members: in single quotes, or in
  double quotes when the text has a single quote and no double quote; backslash, the quote
  and control characters escaped. (Characters are bytes here; a character beyond ASCII is
  kept as it is.)
\<close>

definition py_quote :: "string \<Rightarrow> char" where
  "py_quote s = (if CHR 0x27 \<in> set s \<and> CHR 0x22 \<notin> set s then CHR 0x22 else CHR 0x27)"

definition hex_digit :: "nat \<Rightarrow> char" where
  "hex_digit n = ''0123456789abcdef'' ! (n mod 16)"

definition py_escape :: "char \<Rightarrow> char \<Rightarrow> string" where
  "py_escape q ch =
     (if ch = CHR 0x5C then [CHR 0x5C, CHR 0x5C]
      else if ch = q then [CHR 0x5C, q]
      else if ch = CHR 0x0A then [CHR 0x5C, CHR ''n'']
      else if ch = CHR 0x0D then [CHR 0x5C, CHR ''r'']
      else if ch = CHR 0x09 then [CHR 0x5C, CHR ''t'']
      else if (of_char ch :: nat) < 32 \<or> (of_char ch :: nat) = 127
        then [CHR 0x5C, CHR ''x'', hex_digit (of_char ch div 16), hex_digit (of_char ch)]
      else [ch])"

definition py_repr :: "string \<Rightarrow> string" where
  "py_repr s = (let q = py_quote s in [q] @ concat (map (py_escape q) s) @ [q])"

definition tuple_str :: "string list \<Rightarrow> string" where
  "tuple_str xs =
     (if length xs = 1 then ''('' @ py_repr (hd xs) @ '',)''
      else ''('' @ join '', '' (map py_repr xs) @ '')'')"

section \<open>The pandas operations the module calls\<close>

text \<open>\<^verbatim>\<open>df.loc[mask]\<close> with a boolean mask: the rows where the mask is true, in order.\<close>

definition loc_mask :: "table \<Rightarrow> bool list \<Rightarrow> table" where
  "loc_mask df m = df\<lparr>rows := map fst (filter snd (zip (rows df) m))\<rparr>"

text \<open>\<^verbatim>\<open>locs &= result\<close>\<close>

definition and_mask :: "bool list \<Rightarrow> bool list \<Rightarrow> bool list" where
  "and_mask locs result = map (\<lambda>(a, b). a \<and> b) (zip locs result)"

text \<open>
  \<^verbatim>\<open>df.index.get_level_values(s)\<close>: the labels of level \<open>s\<close>; a level the index does not
  have is an \<^verbatim>\<open>IndexError\<close>.
\<close>

definition get_level_values :: "table \<Rightarrow> nat \<Rightarrow> error + string list" where
  "get_level_values df s =
     (if s < nlevels df then Inr (map (\<lambda>r. idx r ! s) (rows df)) else Inl PyIndexError)"

text \<open>\<^verbatim>\<open>df.columns[s]\<close>\<close>

definition column_at :: "table \<Rightarrow> nat \<Rightarrow> error + string" where
  "column_at df s = (if s < length (columns df) then Inr (columns df ! s) else Inl PyIndexError)"

fun position :: "'a \<Rightarrow> 'a list \<Rightarrow> nat" where
  "position a [] = 0"
| "position a (x # xs) = (if x = a then 0 else Suc (position a xs))"

text \<open>\<^verbatim>\<open>df[column]\<close>: the cells of a column; a name that is no column is a \<^verbatim>\<open>KeyError\<close>.\<close>

definition col :: "table \<Rightarrow> string \<Rightarrow> error + string list" where
  "col df column =
     (if column \<in> set (columns df)
      then Inr (map (\<lambda>r. cells r ! position column (columns df)) (rows df))
      else Inl PyKeyError)"

text \<open>\<^verbatim>\<open>df.empty\<close>: true when either axis has length 0.\<close>

definition empty :: "table \<Rightarrow> bool" where
  "empty df \<longleftrightarrow> rows df = [] \<or> columns df = []"

text \<open>\<^verbatim>\<open>df.head(n)\<close>\<close>

definition head :: "nat \<Rightarrow> table \<Rightarrow> table" where
  "head n df = df\<lparr>rows := take n (rows df)\<rparr>"

text \<open>
  The text pandas tests in \<^verbatim>\<open>df.filter(like=..., axis=0)\<close>: the label itself on a one-level
  index, \<^verbatim>\<open>str\<close> of the label tuple on a multi-level index.
\<close>

definition label_str :: "table \<Rightarrow> row \<Rightarrow> string" where
  "label_str df r =
     (if nlevels df = 1 then (case idx r of [] \<Rightarrow> [] | l # _ \<Rightarrow> l) else tuple_str (idx r))"

text \<open>
  \<^verbatim>\<open>df.filter(like=like, axis=0)\<close> keeps the rows for which \<^verbatim>\<open>like in str(label)\<close> holds:
  Python's \<^verbatim>\<open>in\<close> on texts is the test for a contiguous occurrence.
\<close>

definition filter_like :: "table \<Rightarrow> string \<Rightarrow> table" where
  "filter_like df like = df\<lparr>rows := filter (\<lambda>r. sublist like (label_str df r)) (rows df)\<rparr>"

text \<open>\<^verbatim>\<open>df.index.isin(other.index)\<close>\<close>

definition index_isin :: "table \<Rightarrow> table \<Rightarrow> bool list" where
  "index_isin df other = map (\<lambda>r. idx r \<in> set (map idx (rows other))) (rows df)"

text \<open>
  \<^verbatim>\<open>df.loc[keys]\<close> with a list of labels of the first index level: for each key in turn, the
  rows under that key in their order; a key with no row is a \<^verbatim>\<open>KeyError\<close>.
\<close>

definition level0 :: "row \<Rightarrow> string" where
  "level0 r = (case idx r of [] \<Rightarrow> [] | l # _ \<Rightarrow> l)"

definition loc_labels :: "table \<Rightarrow> string list \<Rightarrow> error + table" where
  "loc_labels df keys =
     (if \<forall>k \<in> set keys. k \<in> set (map level0 (rows df))
      then Inr (df\<lparr>rows := concat (map (\<lambda>k. filter (\<lambda>r. level0 r = k) (rows df)) keys)\<rparr>)
      else Inl PyKeyError)"

text \<open>
  \<^verbatim>\<open>pd.concat(frames)\<close> of profile frames of one schema: the rows of the frames in order, in
  a new frame whose \<^verbatim>\<open>_fieldPrefix\<close> is \<^verbatim>\<open>None\<close>. \<^verbatim>\<open>drop_duplicates()\<close> compares the cells
  of the rows (not their labels), keeps the first of equal rows, and keeps the attributes of
  its frame.
\<close>

definition concat_frames :: "table list \<Rightarrow> table" where
  "concat_frames frames =
     (hd frames)\<lparr>fieldPrefix := NoneValue, rows := concat (map rows frames)\<rparr>"

fun first_occurrences :: "string list list \<Rightarrow> row list \<Rightarrow> row list" where
  "first_occurrences seen [] = []"
| "first_occurrences seen (r # rs) =
     (if cells r \<in> set seen then first_occurrences seen rs
      else r # first_occurrences (cells r # seen) rs)"

definition drop_duplicates :: "table \<Rightarrow> table" where
  "drop_duplicates df = df\<lparr>rows := first_occurrences [] (rows df)\<rparr>"

section \<open>The row masks of \<^verbatim>\<open>_frameFilter\<close>\<close>

text \<open>
  \<^verbatim>\<open>skipSelect = (None,'**','.*') if regexPattern else (None,'**')\<close>: the positional values
  that bind nothing.
\<close>

definition skipSelect :: "bool \<Rightarrow> sel list" where
  "skipSelect regexPattern =
     (if regexPattern then [SelNone, SelStr ''**'', SelStr ''.*''] else [SelNone, SelStr ''**''])"

text \<open>
  \<^verbatim>\<open>isinstance(sel, re.Pattern)\<close>, and the pattern that \<^verbatim>\<open>str.match(sel)\<close> compiles: a text or a
  compiled pattern; every other value is a \<^verbatim>\<open>TypeError\<close> there.
\<close>

definition is_Pattern :: "sel \<Rightarrow> bool" where
  "is_Pattern sel = (case sel of SelPat _ \<Rightarrow> True | _ \<Rightarrow> False)"

definition pattern_text :: "sel \<Rightarrow> string option" where
  "pattern_text sel = (case sel of SelStr p \<Rightarrow> Some p | SelPat p \<Rightarrow> Some p | _ \<Rightarrow> None)"

definition on_values :: "(string \<Rightarrow> bool) \<Rightarrow> error + string list \<Rightarrow> error + bool list" where
  "on_values p vs = (case vs of Inl e \<Rightarrow> Inl e | Inr xs \<Rightarrow> Inr (map p xs))"

text \<open>Lines 39 to 46: the mask of one positional value on index level \<open>s\<close>.\<close>

definition index_result :: "collab \<Rightarrow> bool \<Rightarrow> table \<Rightarrow> nat \<Rightarrow> sel \<Rightarrow> error + bool list" where
  "index_result c regexPattern df s sel =
     (if regexPattern \<or> is_Pattern sel then
        (case get_level_values df s of
           Inl e \<Rightarrow> Inl e
         | Inr vs \<Rightarrow>
             (case pattern_text sel of
                None \<Rightarrow> Inl PyTypeError
              | Some p \<Rightarrow> Inr (map (re_match c p) vs)))
      else
        (case sel of
           SelStr x \<Rightarrow>
             (if is_contains_pattern x then
                on_values (re_search c (inner x)) (get_level_values df s)
              else if is_literal x then
                on_values (\<lambda>v. v = x) (get_level_values df s)
              else
                on_values (re_match c (generic2regex c x)) (get_level_values df s))
         | SelList l \<Rightarrow> Inl PyAttributeError
         | _ \<Rightarrow> Inl PyTypeError))"

text \<open>Lines 81 to 100: the mask of one column criterion.\<close>

definition column_result :: "collab \<Rightarrow> bool \<Rightarrow> table \<Rightarrow> string \<Rightarrow> sel \<Rightarrow> error + bool list" where
  "column_result c regexPattern df column sel =
     (case col df column of
        Inl e \<Rightarrow> Inl e
      | Inr vs \<Rightarrow>
          (if regexPattern \<or> is_Pattern sel then
             (case pattern_text sel of
                None \<Rightarrow> Inl PyTypeError
              | Some p \<Rightarrow> Inr (map (re_match c p) vs))
           else
             (case sel of
                SelStr x \<Rightarrow>
                  (if x = ''**'' then Inr (map (\<lambda>v. v \<noteq> []) vs)
                   else if is_contains_pattern x then Inr (map (re_search c (inner x)) vs)
                   else if is_literal x then Inr (map (\<lambda>v. v = x) vs)
                   else Inr (map (re_match c (generic2regex c x)) vs))
              | SelList l \<Rightarrow>
                  (if any_generic l then
                     Inr (map (re_match c (join ''|'' (map (generic2regex c) l))) vs)
                   else Inr (map (\<lambda>v. v \<in> set l) vs))
              | _ \<Rightarrow> Inr (map (\<lambda>v. False) vs))))"

text \<open>
  Lines 48 to 51 and 102 to 105: a mask is either folded into \<^verbatim>\<open>locs\<close> (exclude) or applied
  to the frame at once (select). The state is the frame and \<^verbatim>\<open>locs\<close>; the source has no
  \<^verbatim>\<open>locs\<close> in select mode, where the model carries it along unused.
\<close>

definition apply_result :: "bool \<Rightarrow> bool list \<Rightarrow> table \<times> bool list \<Rightarrow> table \<times> bool list" where
  "apply_result exclude result st =
     (if exclude then (fst st, and_mask (snd st) result) else (loc_mask (fst st) result, snd st))"

text \<open>Lines 35 to 51: the positional values on the index levels, \<open>s\<close> counting the levels.\<close>

fun index_loop ::
  "collab \<Rightarrow> bool \<Rightarrow> bool \<Rightarrow> nat \<Rightarrow> sel list \<Rightarrow> table \<times> bool list \<Rightarrow> error + table \<times> bool list" where
  "index_loop c regexPattern exclude s [] st = Inr st"
| "index_loop c regexPattern exclude s (sel # rest) st =
     (if sel \<notin> set (skipSelect regexPattern) then
        (case index_result c regexPattern (fst st) s sel of
           Inl e \<Rightarrow> Inl e
         | Inr result \<Rightarrow>
             index_loop c regexPattern exclude (Suc s) rest (apply_result exclude result st))
      else index_loop c regexPattern exclude (Suc s) rest st)"

text \<open>Lines 53 to 57: the positional values bound to the columns by position.\<close>

fun positional_columns :: "bool \<Rightarrow> table \<Rightarrow> nat \<Rightarrow> sel list \<Rightarrow> error + (string \<times> sel) list" where
  "positional_columns regexPattern df s [] = Inr []"
| "positional_columns regexPattern df s (sel # rest) =
     (if sel \<notin> set (skipSelect regexPattern) then
        (case column_at df s of
           Inl e \<Rightarrow> Inl e
         | Inr column \<Rightarrow>
             (case positional_columns regexPattern df (Suc s) rest of
                Inl e \<Rightarrow> Inl e
              | Inr cs \<Rightarrow> Inr ((column, sel) # cs)))
      else positional_columns regexPattern df (Suc s) rest)"

text \<open>Lines 80 to 105: the column criteria, in the order they were collected.\<close>

fun column_loop ::
  "collab \<Rightarrow> bool \<Rightarrow> bool \<Rightarrow> (string \<times> sel) list \<Rightarrow> table \<times> bool list \<Rightarrow> error + table \<times> bool list" where
  "column_loop c regexPattern exclude [] st = Inr st"
| "column_loop c regexPattern exclude (cs # rest) st =
     (case column_result c regexPattern (fst st) (fst cs) (snd cs) of
        Inl e \<Rightarrow> Inl e
      | Inr result \<Rightarrow> column_loop c regexPattern exclude rest (apply_result exclude result st))"

section \<open>The profile resolver \<^verbatim>\<open>match\<close>\<close>

text \<open>
  Modelled from the spec: \<^verbatim>\<open>listMe\<close> of \<^verbatim>\<open>utils\<close> is not in the module. The spec has it wrap a
  scalar as a one-element sequence and pass a sequence through.
\<close>

definition listMe :: "sel \<Rightarrow> sel list" where
  "listMe item = (case item of SelList l \<Rightarrow> map SelStr l | _ \<Rightarrow> [item])"

text \<open>
  Modelled from the spec: \<^verbatim>\<open>df.find(cls)\<close> is a method of the frame class, outside the
  module. The spec has the class label narrow the table first; the frame class does it with
  the filter engine on the index levels (\<^verbatim>\<open>useIndex=True\<close>), here with the one positional
  value \<open>cls\<close> on level 0 in select mode.
\<close>

definition find :: "collab \<Rightarrow> table \<Rightarrow> string \<Rightarrow> error + table" where
  "find c df cls =
     (case index_loop c False False 0 [SelStr cls] (df, replicate (length (rows df)) True) of
        Inl e \<Rightarrow> Inl e
      | Inr st \<Rightarrow> Inr (fst st))"

text \<open>
  \<^verbatim>\<open>[re.match(x,sel)!=None for x in df[column].apply(generic2regex)]\<close>: the rows whose
  profile name, read as a generic pattern, matches the queried name.
\<close>

definition name_mask :: "collab \<Rightarrow> table \<Rightarrow> string \<Rightarrow> string \<Rightarrow> error + bool list" where
  "name_mask c df column sel =
     on_values (\<lambda>x. re_match c (generic2regex c x) sel) (col df column)"

text \<open>
  \<^verbatim>\<open>sel[0:sel.find('.')+1]\<close>: the text up to and including the first dot, empty when there
  is no dot.
\<close>

definition qualifier :: "string \<Rightarrow> string" where
  "qualifier sel = take (nat (py_find (CHR ''.'') sel + 1)) sel"

text \<open>
  Lines 165 to 175: the data set names in turn; \<open>frames\<close> collects one frame per name that
  the qualifier filter leaves rows for. A queried value that is no text has no \<^verbatim>\<open>find\<close>.
\<close>

fun ds_loop :: "collab \<Rightarrow> table \<Rightarrow> string \<Rightarrow> sel list \<Rightarrow> table list \<Rightarrow> error + table list" where
  "ds_loop c df p [] frames = Inr frames"
| "ds_loop c df p (SelStr sel # rest) frames =
     (let qualp = qualifier sel in
      if qualp \<noteq> [] then
        (let result = filter_like df qualp in
         if \<not> empty result then
           (case name_mask c result (p @ ''NAME'') sel of
              Inl e \<Rightarrow> Inl e
            | Inr m \<Rightarrow>
                (let result = loc_mask result m in
                 if nlevels result = 1 then ds_loop c df p rest (frames @ [head 1 result])
                 else
                   (case rows result of
                      [] \<Rightarrow> Inl PyIndexError
                    | r # _ \<Rightarrow>
                        (case idx r of
                           [] \<Rightarrow> Inl PyIndexError
                         | k # _ \<Rightarrow>
                             (case loc_labels result [k] of
                                Inl e \<Rightarrow> Inl e
                              | Inr f \<Rightarrow> ds_loop c df p rest (frames @ [f]))))))
         else ds_loop c df p rest frames)
      else Inl (NotQualified sel))"
| "ds_loop c df p (_ # rest) frames = Inl PyAttributeError"

text \<open>
  \<^verbatim>\<open>for (i0,i1,*rest) in result.index\<close>: a label of a multi-level index is a tuple; a label
  of a one-level index is a text, which unpacks into its characters. Fewer than two members
  is a \<^verbatim>\<open>ValueError\<close>.
\<close>

definition unpack2 :: "nat \<Rightarrow> string list \<Rightarrow> error + string \<times> string" where
  "unpack2 nl label =
     (if nl = 1 then
        (case label of
           (a # b # _) # _ \<Rightarrow> Inr ([a], [b])
         | _ \<Rightarrow> Inl PyValueError)
      else
        (case label of
           i0 # i1 # _ \<Rightarrow> Inr (i0, i1)
         | _ \<Rightarrow> Inl PyValueError))"

text \<open>
  Lines 192 to 198: the walk over the labels of the matching rows. \<^verbatim>\<open>prevClass\<close> starts as
  the empty text for every queried name; \<^verbatim>\<open>prevResource\<close> is a local of the method that
  nothing binds before the first class change (reading it unbound is an
  \<^verbatim>\<open>UnboundLocalError\<close>) and that keeps its value from one queried name to the next.
\<close>

fun gr_walk ::
  "nat \<Rightarrow> string list list \<Rightarrow> string \<times> string option \<Rightarrow> error + bool list \<times> string option" where
  "gr_walk nl [] st = Inr ([], snd st)"
| "gr_walk nl (label # labels) st =
     (case unpack2 nl label of
        Inl e \<Rightarrow> Inl e
      | Inr i \<Rightarrow>
          (let st' = (if fst i \<noteq> fst st then (fst i, Some (snd i)) else st) in
           case snd st' of
             None \<Rightarrow> Inl PyUnboundLocalError
           | Some prevResource \<Rightarrow>
               (case gr_walk nl labels st' of
                  Inl e \<Rightarrow> Inl e
                | Inr r \<Rightarrow> Inr ((fst i = fst st' \<and> snd i = prevResource) # fst r, snd r))))"

text \<open>Lines 189 to 199: the resource names in turn.\<close>

fun gr_loop ::
  "collab \<Rightarrow> string \<Rightarrow> table \<Rightarrow> sel list \<Rightarrow> table list \<times> string option
     \<Rightarrow> error + table list \<times> string option" where
  "gr_loop c p start [] st = Inr st"
| "gr_loop c p start (SelStr sel # rest) st =
     (case name_mask c start (p @ ''NAME'') sel of
        Inl e \<Rightarrow> Inl e
      | Inr m \<Rightarrow>
          (let result = loc_mask start m in
           case gr_walk (nlevels result) (map idx (rows result)) ([], snd st) of
             Inl e \<Rightarrow> Inl e
           | Inr w \<Rightarrow> gr_loop c p start rest (fst st @ [loc_mask result (fst w)], snd w)))"
| "gr_loop c p start (_ # rest) st =
     (case col start (p @ ''NAME'') of Inl e \<Rightarrow> Inl e | Inr _ \<Rightarrow> Inl PyTypeError)"

text \<open>
  Lines 177 to 187: the scope of the search and the queried names. A class that is a text
  goes through \<^verbatim>\<open>find\<close>, a list of classes through \<^verbatim>\<open>df.loc\<close>; any other value is no label
  of the index.
\<close>

definition class_slice :: "collab \<Rightarrow> table \<Rightarrow> sel \<Rightarrow> error + table" where
  "class_slice c df a0 =
     (case a0 of
        SelStr cls \<Rightarrow> find c df cls
      | SelList keys \<Rightarrow> loc_labels df keys
      | _ \<Rightarrow> Inl PyKeyError)"

definition gr_scope :: "collab \<Rightarrow> table \<Rightarrow> sel list \<Rightarrow> error + table \<times> sel" where
  "gr_scope c df selection =
     (case selection of
        [a] \<Rightarrow> Inr (df, a)
      | [a0, a1] \<Rightarrow>
          (case class_slice c df a0 of
             Inl e \<Rightarrow> Inl e
           | Inr start \<Rightarrow> Inr (start, a1))
      | _ \<Rightarrow> Inl MatchClassAndName)"

text \<open>Lines 203 to 209: no frame, one frame, or the frames joined without duplicates.\<close>

definition collect :: "table \<Rightarrow> table list \<Rightarrow> table" where
  "collect df frames =
     (if length frames = 0 then head 0 df
      else if length frames = 1 then hd frames
      else drop_duplicates (concat_frames frames))"

definition match :: "collab \<Rightarrow> table \<Rightarrow> sel list \<Rightarrow> error + table" where
  "match c df selection =
     (case fieldPrefix df of
        Absent \<Rightarrow> Inl MatchNotApplicable
      | NoneValue \<Rightarrow> Inl PyTypeError
      | Text p \<Rightarrow>
          (if take 2 p = ''DS'' then
             (if length selection \<noteq> 1 then Inl MatchOneParameter
              else
                (case ds_loop c df p (listMe (hd selection)) [] of
                   Inl e \<Rightarrow> Inl e
                 | Inr frames \<Rightarrow> Inr (collect df frames)))
           else if take 2 p = ''GR'' then
             (case gr_scope c df selection of
                Inl e \<Rightarrow> Inl e
              | Inr sc \<Rightarrow>
                  (if \<not> empty (fst sc) then
                     (case gr_loop c p (fst sc) (listMe (snd sc)) ([], None) of
                        Inl e \<Rightarrow> Inl e
                      | Inr st \<Rightarrow> Inr (collect df (fst st)))
                   else Inr (collect df [])))
           else Inl MatchNotApplicable))"

section \<open>The criterion filter \<^verbatim>\<open>_frameFilter\<close>\<close>

text \<open>
  Line 61, \<^verbatim>\<open>hasattr(df,'_fieldPrefix') and df._fieldPrefix[0:2] in ('DS','GR')\<close>, and line
  72, \<^verbatim>\<open>hasattr(df,'_fieldPrefix') and df._fieldPrefix+kwd in df.columns\<close>. With the value
  \<^verbatim>\<open>None\<close> the slice and the sum raise \<^verbatim>\<open>TypeError\<close>.
\<close>

definition is_DS_or_GR :: "table \<Rightarrow> error + bool" where
  "is_DS_or_GR df =
     (case fieldPrefix df of
        Absent \<Rightarrow> Inr False
      | NoneValue \<Rightarrow> Inl PyTypeError
      | Text p \<Rightarrow> Inr (take 2 p = ''DS'' \<or> take 2 p = ''GR''))"

definition prefixed_column :: "table \<Rightarrow> string \<Rightarrow> error + string option" where
  "prefixed_column df kwd =
     (case fieldPrefix df of
        Absent \<Rightarrow> Inr None
      | NoneValue \<Rightarrow> Inl PyTypeError
      | Text p \<Rightarrow> Inr (if p @ kwd \<in> set (columns df) then Some (p @ kwd) else None))"

text \<open>
  Lines 59 to 78: the keyword criteria in the order of the call. \<open>kwdValues\<close> is the alias
  dictionary, as the list of its items. The state is the frame, \<^verbatim>\<open>locs\<close> and
  \<^verbatim>\<open>columnSelect\<close>.
\<close>

fun kwds_loop ::
  "collab \<Rightarrow> (string \<times> string) list \<Rightarrow> bool \<Rightarrow> (string \<times> sel) list
     \<Rightarrow> table \<times> bool list \<times> (string \<times> sel) list
     \<Rightarrow> error + table \<times> bool list \<times> (string \<times> sel) list" where
  "kwds_loop c kwdValues exclude [] st = Inr st"
| "kwds_loop c kwdValues exclude (kw # rest) (df, locs, columnSelect) =
     (let kwd = fst kw; sel = snd kw in
      if kwd = ''match'' then
        (case is_DS_or_GR df of
           Inl e \<Rightarrow> Inl e
         | Inr applies \<Rightarrow>
             (if applies then
                (case match c df [sel] of
                   Inl e \<Rightarrow> Inl e
                 | Inr m \<Rightarrow>
                     (if exclude then
                        kwds_loop c kwdValues exclude rest
                          (df, and_mask locs (index_isin df m), columnSelect)
                      else kwds_loop c kwdValues exclude rest (m, locs, columnSelect)))
              else Inl MatchNotApplicable))
      else if kwd \<in> set (map fst kwdValues) then
        kwds_loop c kwdValues exclude rest
          (df, locs, columnSelect @ [(the (map_of kwdValues kwd), sel)])
      else if kwd \<in> set (columns df) then
        kwds_loop c kwdValues exclude rest (df, locs, columnSelect @ [(kwd, sel)])
      else
        (case prefixed_column df kwd of
           Inl e \<Rightarrow> Inl e
         | Inr (Some column) \<Rightarrow>
             kwds_loop c kwdValues exclude rest (df, locs, columnSelect @ [(column, sel)])
         | Inr None \<Rightarrow>
             (if length kwdValues = 0 then Inl (UnknownFilter kwd sel)
              else Inl (UnknownFilterTry kwd sel (map fst kwdValues)))))"

text \<open>The method as a whole: positional criteria, keyword criteria, column criteria, and
  in exclude mode the one \<^verbatim>\<open>df.loc[~ locs]\<close> at the end.\<close>

definition frameFilter ::
  "collab \<Rightarrow> table \<Rightarrow> sel list \<Rightarrow> (string \<times> string) list \<Rightarrow> bool \<Rightarrow> bool \<Rightarrow> bool
     \<Rightarrow> (string \<times> sel) list \<Rightarrow> error + table" where
  "frameFilter c df selection kwdValues useIndex exclude regexPattern kwds =
     (let locs = replicate (length (rows df)) True in
      case (if useIndex then
              (case index_loop c regexPattern exclude 0 selection (df, locs) of
                 Inl e \<Rightarrow> Inl e
               | Inr st \<Rightarrow> Inr (fst st, snd st, []))
            else
              (case positional_columns regexPattern df 0 selection of
                 Inl e \<Rightarrow> Inl e
               | Inr columnSelect \<Rightarrow> Inr (df, locs, columnSelect))) of
        Inl e \<Rightarrow> Inl e
      | Inr st \<Rightarrow>
          (case kwds_loop c kwdValues exclude kwds st of
             Inl e \<Rightarrow> Inl e
           | Inr (df', locs', columnSelect) \<Rightarrow>
               (case column_loop c regexPattern exclude columnSelect (df', locs') of
                  Inl e \<Rightarrow> Inl e
                | Inr st' \<Rightarrow>
                    Inr (if exclude then loc_mask (fst st') (map Not (snd st')) else fst st'))))"

section \<open>Collaborators and tables for the examples\<close>

text \<open>
  Modelled from the spec: the pattern translator and the regular expression engine are
  outside the module, so the examples run on a stand-in for the pair. The spec has a
  translated pattern match "the same generic semantics"; the stand-in leaves a generic
  pattern as it is and matches it directly: \<open>*\<close> stands for any run of characters within a
  qualifier, \<open>%\<close> for one such character, every other character for itself, and the whole
  text must be used up. A search is the test for an occurrence of the text.
\<close>

fun generic_match :: "string \<Rightarrow> string \<Rightarrow> bool" where
  "generic_match [] s = (s = [])"
| "generic_match (p # ps) [] = (p = CHR ''*'' \<and> generic_match ps [])"
| "generic_match (p # ps) (x # xs) =
     (if p = CHR ''*'' then
        generic_match ps (x # xs) \<or> (x \<noteq> CHR ''.'' \<and> generic_match (p # ps) xs)
      else if p = CHR ''%'' then x \<noteq> CHR ''.'' \<and> generic_match ps xs
      else x = p \<and> generic_match ps xs)"

definition demo :: collab where
  "demo = \<lparr>generic2regex = (\<lambda>p. p), re_match = generic_match, re_search = sublist\<rparr>"

text \<open>
  A data set profile table (one index level, the profile name), a data set permission
  table (three index levels) and a general resource profile table (two index levels, class
  and profile name).
\<close>

definition ds_profiles :: table where
  "ds_profiles =
     \<lparr>fieldPrefix = Text ''DSBD_'', nlevels = 1, columns = [''DSBD_NAME'', ''DSBD_UACC''],
      rows = [\<lparr>idx = [''SYS1.*''], cells = [''SYS1.*'', ''READ'']\<rparr>,
              \<lparr>idx = [''SYS1.PROCLIB''], cells = [''SYS1.PROCLIB'', ''NONE'']\<rparr>]\<rparr>"

definition ds_permits :: table where
  "ds_permits =
     \<lparr>fieldPrefix = Text ''DSACC_'', nlevels = 3,
      columns = [''DSACC_NAME'', ''DSACC_AUTH_ID'', ''DSACC_ACCESS''],
      rows = [\<lparr>idx = [''SYS1.PARMLIB'', ''SYSPROG'', ''ALTER''],
               cells = [''SYS1.PARMLIB'', ''SYSPROG'', ''ALTER'']\<rparr>,
              \<lparr>idx = [''SYS1.PARMLIB'', ''OPER'', ''READ''],
               cells = [''SYS1.PARMLIB'', ''OPER'', ''READ'']\<rparr>]\<rparr>"

definition gr_profiles :: table where
  "gr_profiles =
     \<lparr>fieldPrefix = Text ''GRBD_'', nlevels = 2,
      columns = [''GRBD_NAME'', ''GRBD_CLASS_NAME'', ''GRBD_UACC''],
      rows = [\<lparr>idx = [''FACILITY'', ''BPX.*''], cells = [''BPX.*'', ''FACILITY'', ''NONE'']\<rparr>,
              \<lparr>idx = [''FACILITY'', ''BPX.SUPERUSER''],
               cells = [''BPX.SUPERUSER'', ''FACILITY'', ''NONE'']\<rparr>,
              \<lparr>idx = [''UNIXPRIV'', ''SUPERUSER.*''],
               cells = [''SUPERUSER.*'', ''UNIXPRIV'', ''NONE'']\<rparr>]\<rparr>"

text \<open>
  A data set profile table with a profile whose name holds the text \<open>SYS1.\<close> inside, not
  in front, and a general resource table whose rows of class \<open>FACILITY\<close> do not stand
  together.
\<close>

definition ds_inner :: table where
  "ds_inner =
     \<lparr>fieldPrefix = Text ''DSBD_'', nlevels = 1, columns = [''DSBD_NAME'', ''DSBD_UACC''],
      rows = [\<lparr>idx = [''XSYS1.DATA''], cells = [''XSYS1.DATA'', ''READ'']\<rparr>,
              \<lparr>idx = [''SYS2.PROCLIB''], cells = [''SYS2.PROCLIB'', ''NONE'']\<rparr>]\<rparr>"

definition gr_unsorted :: table where
  "gr_unsorted =
     \<lparr>fieldPrefix = Text ''GRBD_'', nlevels = 2,
      columns = [''GRBD_NAME'', ''GRBD_CLASS_NAME'', ''GRBD_UACC''],
      rows = [\<lparr>idx = [''FACILITY'', ''BPX.*''], cells = [''BPX.*'', ''FACILITY'', ''NONE'']\<rparr>,
              \<lparr>idx = [''UNIXPRIV'', ''BPX.SUPERUSER''],
               cells = [''BPX.SUPERUSER'', ''UNIXPRIV'', ''NONE'']\<rparr>,
              \<lparr>idx = [''FACILITY'', ''BPX.SUPERUSER''],
               cells = [''BPX.SUPERUSER'', ''FACILITY'', ''READ'']\<rparr>]\<rparr>"

section \<open>Notions the properties are stated with\<close>

text \<open>The cell of a row in a named column of a frame.\<close>

definition cell :: "table \<Rightarrow> string \<Rightarrow> row \<Rightarrow> string" where
  "cell df column r = cells r ! position column (columns df)"

text \<open>
  The conjunction of all criteria over the whole table: every criterion's mask is computed
  against the original frame and folded into one accumulator that starts all true, as the
  source does it in exclude mode (lines 31, 49, 63 and 103, where the frame is never
  narrowed); the rows where the accumulator is true are kept. This is the reading of
  "select" that the interleaved narrowing of select mode is compared with.
\<close>

definition conjunction_select ::
  "collab \<Rightarrow> table \<Rightarrow> sel list \<Rightarrow> (string \<times> string) list \<Rightarrow> bool \<Rightarrow> bool
     \<Rightarrow> (string \<times> sel) list \<Rightarrow> error + table" where
  "conjunction_select c df selection kwdValues useIndex regexPattern kwds =
     (let locs = replicate (length (rows df)) True in
      case (if useIndex then
              (case index_loop c regexPattern True 0 selection (df, locs) of
                 Inl e \<Rightarrow> Inl e
               | Inr st \<Rightarrow> Inr (fst st, snd st, []))
            else
              (case positional_columns regexPattern df 0 selection of
                 Inl e \<Rightarrow> Inl e
               | Inr columnSelect \<Rightarrow> Inr (df, locs, columnSelect))) of
        Inl e \<Rightarrow> Inl e
      | Inr st \<Rightarrow>
          (case kwds_loop c kwdValues True kwds st of
             Inl e \<Rightarrow> Inl e
           | Inr (df', locs', columnSelect) \<Rightarrow>
               (case column_loop c regexPattern True columnSelect (df', locs') of
                  Inl e \<Rightarrow> Inl e
                | Inr st' \<Rightarrow> Inr (loc_mask df (snd st')))))"

text \<open>
  The (class, resource) pair of a row as the walk of \<^verbatim>\<open>match\<close> reads it off the label, and
  the class alone.
\<close>

definition label_pair :: "table \<Rightarrow> row \<Rightarrow> (string \<times> string) option" where
  "label_pair df r = (case unpack2 (nlevels df) (idx r) of Inl e \<Rightarrow> None | Inr i \<Rightarrow> Some i)"

definition label_class :: "table \<Rightarrow> row \<Rightarrow> string option" where
  "label_class df r = map_option fst (label_pair df r)"

text \<open>A list in which equal members stand together: no member comes back after another.\<close>

fun contiguous :: "'a list \<Rightarrow> bool" where
  "contiguous [] = True"
| "contiguous (x # xs) = ((x \<in> set xs \<longrightarrow> hd xs = x) \<and> contiguous xs)"

text \<open>The rows of a frame whose profile name, as a generic pattern, matches a queried name.\<close>

definition matching_rows :: "collab \<Rightarrow> table \<Rightarrow> string \<Rightarrow> string \<Rightarrow> row list" where
  "matching_rows c df column sel =
     filter (\<lambda>r. re_match c (generic2regex c (cell df column r)) sel) (rows df)"

text \<open>A frame that is a narrowed view of another: the same schema, and no row of its own.\<close>

definition view_of :: "table \<Rightarrow> table \<Rightarrow> bool" where
  "view_of t df \<longleftrightarrow>
     nlevels t = nlevels df \<and> columns t = columns df \<and> set (rows t) \<subseteq> set (rows df)"

text \<open>One column criterion applied to a frame in select mode (lines 81 to 105, once).\<close>

definition select_column :: "collab \<Rightarrow> bool \<Rightarrow> table \<Rightarrow> string \<Rightarrow> sel \<Rightarrow> error + table" where
  "select_column c regexPattern df column sel =
     (case column_result c regexPattern df column sel of
        Inl e \<Rightarrow> Inl e
      | Inr result \<Rightarrow> Inr (loc_mask df result))"

text \<open>
  A row that matches a queried name and carries the (class, resource) pair of the first
  row, in table order, that matches the name in the row's class.
\<close>

definition first_in_class :: "collab \<Rightarrow> table \<Rightarrow> string \<Rightarrow> string \<Rightarrow> row \<Rightarrow> bool" where
  "first_in_class c start column n r \<longleftrightarrow>
     r \<in> set (matching_rows c start column n) \<and> label_pair start r \<noteq> None
     \<and> (\<exists>f. List.find (\<lambda>x. label_class start x = label_class start r)
               (matching_rows c start column n) = Some f
            \<and> label_pair start f = label_pair start r)"

section \<open>Facts about the text and frame operations\<close>

lemma py_find_lower: "- 1 \<le> py_find ch s"
  by (induction s) (auto simp: Let_def)

lemma py_find_absent: "py_find ch s = - 1 \<longleftrightarrow> ch \<notin> set s"
proof (induction s)
  case Nil
  then show ?case by simp
next
  case (Cons x xs)
  have "- 1 \<le> py_find ch xs" by (rule py_find_lower)
  with Cons show ?case by (auto simp: Let_def)
qed

lemma qualifier_empty: "qualifier s = [] \<longleftrightarrow> CHR ''.'' \<notin> set s"
proof (cases "CHR ''.'' \<in> set s")
  case True
  then have "py_find (CHR ''.'') s \<noteq> - 1" by (simp add: py_find_absent)
  with py_find_lower [of "CHR ''.''" s] have "0 \<le> py_find (CHR ''.'') s" by linarith
  moreover from True have "s \<noteq> []" by auto
  ultimately show ?thesis using True by (simp add: qualifier_def)
next
  case False
  then have "py_find (CHR ''.'') s = - 1" by (simp add: py_find_absent)
  with False show ?thesis by (simp add: qualifier_def)
qed

lemma filter_zip_map: "map fst (filter snd (zip xs (map P xs))) = filter P xs"
  by (induction xs) auto

lemma rows_loc_mask_map [simp]: "rows (loc_mask df (map P (rows df))) = filter P (rows df)"
  by (simp add: loc_mask_def filter_zip_map)

lemma loc_mask_map: "loc_mask df (map P (rows df)) = df\<lparr>rows := filter P (rows df)\<rparr>"
  by (simp add: loc_mask_def filter_zip_map)

lemma loc_mask_schema [simp]:
  "fieldPrefix (loc_mask df m) = fieldPrefix df"
  "nlevels (loc_mask df m) = nlevels df"
  "columns (loc_mask df m) = columns df"
  by (simp_all add: loc_mask_def)

lemma index_loop_skip:
  "index_loop c rx ex s (replicate n SelNone @ sels) st = index_loop c rx ex (s + n) sels st"
  by (induction n arbitrary: s) (auto simp: skipSelect_def)

lemma star_literal: "is_literal ''*''" "\<not> is_contains_pattern ''*''"
  by (simp_all add: is_literal_def is_contains_pattern_def)

lemma ds_loop_unqualified:
  "name \<in> set names \<Longrightarrow> CHR ''.'' \<notin> set name \<Longrightarrow>
     \<exists>e. ds_loop c df p (map SelStr names) frames = Inl e"
proof (induction names arbitrary: frames)
  case Nil
  then show ?case by simp
next
  case (Cons n ns)
  show ?case
  proof (cases "CHR ''.'' \<in> set n")
    case False
    then show ?thesis by (simp add: qualifier_empty)
  next
    case True
    with Cons.prems have "name \<in> set ns" by auto
    from Cons.IH [OF this Cons.prems(2)]
    have ih: "\<And>fr. \<exists>e. ds_loop c df p (map SelStr ns) fr = Inl e" by blast
    from True have q: "qualifier n \<noteq> []" by (simp add: qualifier_empty)
    show ?thesis
      using q ih
      by (auto simp: Let_def split: sum.splits list.splits)
  qed
qed

subsection \<open>Narrowed views\<close>

lemma view_of_refl [simp]: "view_of df df"
  by (simp add: view_of_def)

lemma view_of_trans: "view_of a b \<Longrightarrow> view_of b d \<Longrightarrow> view_of a d"
  by (auto simp: view_of_def)

lemma view_of_loc_mask [simp]: "view_of (loc_mask df m) df"
  by (auto simp: view_of_def loc_mask_def dest: set_zip_leftD)

lemma view_of_rows: "set rs \<subseteq> set (rows df) \<Longrightarrow> view_of (df\<lparr>rows := rs\<rparr>) df"
  by (simp add: view_of_def)

lemma view_of_head [simp]: "view_of (head n df) df"
  by (auto simp: view_of_def head_def dest: in_set_takeD)

lemma view_of_filter_like [simp]: "view_of (filter_like df q) df"
  by (auto simp: view_of_def filter_like_def)

lemma view_of_loc_labels: "loc_labels df keys = Inr t \<Longrightarrow> view_of t df"
  by (auto simp: view_of_def loc_labels_def split: if_splits)

lemma first_occurrences_subset: "set (first_occurrences seen rs) \<subseteq> set rs"
  by (induction seen rs rule: first_occurrences.induct) auto

lemma view_of_drop_duplicates [simp]: "view_of (drop_duplicates df) df"
  using first_occurrences_subset [of "[]" "rows df"]
  by (simp add: view_of_def drop_duplicates_def)

lemma view_of_concat_frames:
  "frames \<noteq> [] \<Longrightarrow> \<forall>f \<in> set frames. view_of f df \<Longrightarrow> view_of (concat_frames frames) df"
  by (cases frames) (auto simp: view_of_def concat_frames_def)

lemma view_of_collect:
  assumes "\<forall>f \<in> set frames. view_of f df"
  shows "view_of (collect df frames) df"
proof (cases frames)
  case Nil
  then show ?thesis by (simp add: collect_def)
next
  case (Cons f fs)
  with assms have "view_of (concat_frames frames) df"
    by (intro view_of_concat_frames) auto
  then have "view_of (drop_duplicates (concat_frames frames)) df"
    by (rule view_of_trans [OF view_of_drop_duplicates])
  with Cons assms show ?thesis by (auto simp: collect_def)
qed

lemma view_of_apply_result:
  "view_of (fst (apply_result ex result st)) (fst st)"
  by (simp add: apply_result_def)

lemma view_of_index_loop:
  "index_loop c rx ex s sels st = Inr st' \<Longrightarrow> view_of (fst st') (fst st)"
proof (induction sels arbitrary: s st)
  case Nil
  then show ?case by simp
next
  case (Cons sel sels)
  show ?case
  proof (cases "sel \<in> set (skipSelect rx)")
    case True
    with Cons show ?thesis by simp
  next
    case False
    with Cons.prems obtain result where
      "index_loop c rx ex (Suc s) sels (apply_result ex result st) = Inr st'"
      by (auto split: sum.splits)
    from Cons.IH [OF this] view_of_apply_result [of ex result st]
    show ?thesis by (rule view_of_trans)
  qed
qed

lemma view_of_column_loop:
  "column_loop c rx ex cs st = Inr st' \<Longrightarrow> view_of (fst st') (fst st)"
proof (induction cs arbitrary: st)
  case Nil
  then show ?case by simp
next
  case (Cons x cs)
  from Cons.prems obtain result where
    "column_loop c rx ex cs (apply_result ex result st) = Inr st'"
    by (auto split: sum.splits)
  from Cons.IH [OF this] view_of_apply_result [of ex result st]
  show ?case by (rule view_of_trans)
qed

lemma view_of_find:
  assumes "find c df cls = Inr t"
  shows "view_of t df"
proof (cases "index_loop c False False 0 [SelStr cls] (df, replicate (length (rows df)) True)")
  case (Inl e)
  with assms show ?thesis by (simp add: find_def)
next
  case (Inr st)
  with assms have "t = fst st" by (simp add: find_def)
  with view_of_index_loop [OF Inr] show ?thesis by simp
qed

lemma view_of_class_slice: "class_slice c df a0 = Inr t \<Longrightarrow> view_of t df"
  by (auto simp: class_slice_def split: sel.splits dest: view_of_find view_of_loc_labels)

lemma view_of_gr_scope: "gr_scope c df selection = Inr sc \<Longrightarrow> view_of (fst sc) df"
  by (auto simp: gr_scope_def split: list.splits sum.splits dest: view_of_class_slice)

lemma view_of_ds_loop:
  "ds_loop c df p names frames = Inr frames' \<Longrightarrow> \<forall>f \<in> set frames. view_of f df \<Longrightarrow>
     \<forall>f \<in> set frames'. view_of f df"
proof (induction c df p names frames rule: ds_loop.induct)
  case (1 c df p frames)
  then show ?case by simp
next
  case (2 c df p sel rest frames)
  let ?res = "filter_like df (qualifier sel)"
  from "2.prems"(1) have q: "qualifier sel \<noteq> []"
    by (auto simp: Let_def split: if_splits)
  show ?case
  proof (cases "empty ?res")
    case True
    with q "2.prems" "2.IH"(3) show ?thesis by (simp add: Let_def)
  next
    case False
    with q "2.prems"(1) obtain m where m: "name_mask c ?res (p @ ''NAME'') sel = Inr m"
      by (auto simp: Let_def split: sum.splits)
    let ?r2 = "loc_mask ?res m"
    have v2: "view_of ?r2 df"
      by (rule view_of_trans [OF view_of_loc_mask view_of_filter_like])
    show ?thesis
    proof (cases "nlevels ?r2 = 1")
      case True
      have "view_of (head 1 ?r2) df" by (rule view_of_trans [OF view_of_head v2])
      with "2.prems"(2) have "\<forall>f \<in> set (frames @ [head 1 ?r2]). view_of f df" by auto
      moreover from q False m True "2.prems"(1)
      have "ds_loop c df p rest (frames @ [head 1 ?r2]) = Inr frames'"
        by (simp add: Let_def)
      ultimately show ?thesis
        using "2.IH"(1) [OF refl q refl False m refl True] by blast
    next
      case nl: False
      with q False m "2.prems"(1) obtain r rs k ks f where
        r: "rows ?r2 = r # rs" and k: "idx r = k # ks" and f: "loc_labels ?r2 [k] = Inr f"
        and rest: "ds_loop c df p rest (frames @ [f]) = Inr frames'"
        by (auto simp: Let_def split: list.splits sum.splits)
      from view_of_loc_labels [OF f] v2 have "view_of f df" by (rule view_of_trans)
      with "2.prems"(2) have "\<forall>f \<in> set (frames @ [f]). view_of f df" by auto
      then show ?thesis
        using "2.IH"(2) [OF refl q refl False m refl nl r k f] rest by blast
    qed
  qed
qed simp_all

lemma view_of_gr_loop:
  "gr_loop c p start names st = Inr st' \<Longrightarrow> view_of start df \<Longrightarrow>
     \<forall>f \<in> set (fst st). view_of f df \<Longrightarrow> \<forall>f \<in> set (fst st'). view_of f df"
proof (induction c p start names st rule: gr_loop.induct)
  case (1 c p start st)
  then show ?case by simp
next
  case (2 c p start sel rest st)
  from "2.prems"(1) obtain m w where
    m: "name_mask c start (p @ ''NAME'') sel = Inr m"
    and w: "gr_walk (nlevels (loc_mask start m)) (map idx (rows (loc_mask start m))) ([], snd st)
              = Inr w"
    and rest: "gr_loop c p start rest
                 (fst st @ [loc_mask (loc_mask start m) (fst w)], snd w) = Inr st'"
    by (auto simp: Let_def split: sum.splits)
  have "view_of (loc_mask (loc_mask start m) (fst w)) start"
    by (rule view_of_trans [OF view_of_loc_mask view_of_loc_mask])
  from this "2.prems"(2) have "view_of (loc_mask (loc_mask start m) (fst w)) df"
    by (rule view_of_trans)
  with "2.prems"(3)
  have "\<forall>f \<in> set (fst (fst st @ [loc_mask (loc_mask start m) (fst w)], snd w)). view_of f df"
    by auto
  with "2.IH" [OF m refl w] rest "2.prems"(2) show ?case by simp
qed (auto split: sum.splits)

lemma view_of_match: "match c df selection = Inr t \<Longrightarrow> view_of t df"
proof -
  assume a: "match c df selection = Inr t"
  then obtain p where p: "fieldPrefix df = Text p" by (auto simp: match_def split: prefix.splits)
  show ?thesis
  proof (cases "take 2 p = ''DS''")
    case True
    with a p obtain frames where f: "ds_loop c df p (listMe (hd selection)) [] = Inr frames"
      and t: "t = collect df frames"
      by (auto simp: match_def split: if_splits sum.splits)
    from view_of_ds_loop [OF f] have "\<forall>f \<in> set frames. view_of f df" by simp
    with t show ?thesis by (simp add: view_of_collect)
  next
    case False
    with a p have gr: "take 2 p = ''GR''" by (auto simp: match_def split: if_splits)
    with a p False obtain sc where sc: "gr_scope c df selection = Inr sc"
      by (auto simp: match_def split: sum.splits)
    show ?thesis
    proof (cases "empty (fst sc)")
      case True
      with a p False gr sc show ?thesis by (auto simp: match_def view_of_collect)
    next
      case ne: False
      with a p False gr sc obtain st where
        st: "gr_loop c p (fst sc) (listMe (snd sc)) ([], None) = Inr st"
        and t: "t = collect df (fst st)"
        by (auto simp: match_def split: sum.splits)
      from view_of_gr_loop [OF st view_of_gr_scope [OF sc]]
      have "\<forall>f \<in> set (fst st). view_of f df" by simp
      with t show ?thesis by (simp add: view_of_collect)
    qed
  qed
qed

lemma view_of_kwds_loop:
  "kwds_loop c kv ex kwds st = Inr st' \<Longrightarrow> view_of (fst st') (fst st)"
proof (induction c kv ex kwds st rule: kwds_loop.induct)
  case (1 c kv ex st)
  then show ?case by simp
next
  case (2 c kv ex kw rest df locs cs)
  show ?case
  proof (cases "fst kw = ''match''")
    case True
    with "2.prems" obtain m where ok: "is_DS_or_GR df = Inr True"
      and m: "match c df [snd kw] = Inr m"
      by (auto simp: Let_def split: sum.splits if_splits)
    show ?thesis
    proof (cases ex)
      case ex: True
      with True ok m "2.prems"
      have "kwds_loop c kv ex rest (df, and_mask locs (index_isin df m), cs) = Inr st'"
        by (simp add: Let_def)
      from "2.IH"(1) [OF refl refl True ok TrueI m ex this] show ?thesis by simp
    next
      case ex: False
      with True ok m "2.prems"
      have "kwds_loop c kv ex rest (m, locs, cs) = Inr st'"
        by (simp add: Let_def)
      from "2.IH"(2) [OF refl refl True ok TrueI m ex this] view_of_match [OF m]
      show ?thesis by (auto intro: view_of_trans)
    qed
  next
    case nm: False
    show ?thesis
    proof (cases "fst kw \<in> set (map fst kv)")
      case True
      with nm "2.prems" "2.IH"(3) [OF refl refl nm True] show ?thesis by (simp add: Let_def)
    next
      case na: False
      show ?thesis
      proof (cases "fst kw \<in> set (columns df)")
        case True
        with nm na "2.prems" "2.IH"(4) [OF refl refl nm na True] show ?thesis
          by (simp add: Let_def)
      next
        case nc: False
        with nm na "2.prems" obtain column where pc: "prefixed_column df (fst kw) = Inr (Some column)"
          and r: "kwds_loop c kv ex rest (df, locs, cs @ [(column, snd kw)]) = Inr st'"
          by (auto simp: Let_def split: sum.splits option.splits if_splits)
        from "2.IH"(5) [OF refl refl nm na nc pc refl r] show ?thesis by simp
      qed
    qed
  qed
qed

lemma view_of_frameFilter:
  assumes "frameFilter c df selection kv useIndex ex rx kwds = Inr t"
  shows "view_of t df"
proof -
  let ?locs = "replicate (length (rows df)) True"
  from assms obtain st where
    st: "(if useIndex then
            (case index_loop c rx ex 0 selection (df, ?locs) of
               Inl e \<Rightarrow> Inl e | Inr st \<Rightarrow> Inr (fst st, snd st, []))
          else
            (case positional_columns rx df 0 selection of
               Inl e \<Rightarrow> Inl e | Inr columnSelect \<Rightarrow> Inr (df, ?locs, columnSelect))) = Inr st"
    unfolding frameFilter_def Let_def by (auto split: sum.splits)
  have v1: "view_of (fst st) df"
  proof (cases useIndex)
    case True
    with st obtain st0 where "index_loop c rx ex 0 selection (df, ?locs) = Inr st0"
      and "st = (fst st0, snd st0, [])" by (auto split: sum.splits)
    with view_of_index_loop [of c rx ex 0 selection "(df, ?locs)" st0] show ?thesis by simp
  next
    case False
    with st show ?thesis by (auto split: sum.splits)
  qed
  from assms st obtain df' locs' cs where
    k: "kwds_loop c kv ex kwds st = Inr (df', locs', cs)"
    unfolding frameFilter_def Let_def by (auto split: sum.splits)
  from view_of_kwds_loop [OF k] have v2: "view_of df' (fst st)" by simp
  from assms st k obtain st' where
    cl: "column_loop c rx ex cs (df', locs') = Inr st'"
    and t: "t = (if ex then loc_mask (fst st') (map Not (snd st')) else fst st')"
    unfolding frameFilter_def Let_def by (auto split: sum.splits)
  from view_of_column_loop [OF cl] have v3: "view_of (fst st') df'" by simp
  have "view_of t (fst st')" using t by simp
  then show ?thesis using v3 v2 v1 by (blast intro: view_of_trans)
qed

subsection \<open>The resolution of keywords\<close>

lemma fieldPrefix_index_loop:
  "index_loop c rx ex s sels st = Inr st' \<Longrightarrow> fieldPrefix (fst st') = fieldPrefix (fst st)"
proof (induction c rx ex s sels st rule: index_loop.induct)
  case (2 c rx ex s sel sels st)
  then show ?case
    by (auto simp: Let_def apply_result_def loc_mask_def split: if_splits sum.splits)
qed simp

lemma prefixed_column_view:
  "fieldPrefix t = fieldPrefix df \<Longrightarrow> columns t = columns df
     \<Longrightarrow> prefixed_column t k = prefixed_column df k"
  by (simp add: prefixed_column_def split: prefix.splits)

lemma kwds_loop_unknown:
  assumes "\<forall>kw \<in> set pre. fst kw \<noteq> ''match'' \<and>
             (fst kw \<in> set (map fst kv) \<or> fst kw \<in> set (columns df)
              \<or> (\<exists>column. prefixed_column df (fst kw) = Inr (Some column)))"
    and "kwd \<noteq> ''match''" and "kwd \<notin> set (map fst kv)" and "kwd \<notin> set (columns df)"
    and "prefixed_column df kwd = Inr None"
  shows "kwds_loop c kv ex (pre @ (kwd, sel) # post) (df, locs, cs) =
           Inl (if length kv = 0 then UnknownFilter kwd sel
                else UnknownFilterTry kwd sel (map fst kv))"
  using assms
proof (induction pre arbitrary: cs)
  case Nil
  then show ?case by (simp add: Let_def)
next
  case (Cons kw pre)
  then show ?case by (auto simp: Let_def)
qed

lemma frameFilter_one_keyword:
  assumes "kwd \<noteq> ''match''"
  shows "frameFilter c df [] kv useIndex False rx [(kwd, sel)] =
      (if kwd \<in> set (map fst kv) then select_column c rx df (the (map_of kv kwd)) sel
       else if kwd \<in> set (columns df) then select_column c rx df kwd sel
       else
         (case prefixed_column df kwd of
            Inl e \<Rightarrow> Inl e
          | Inr (Some column) \<Rightarrow> select_column c rx df column sel
          | Inr None \<Rightarrow>
              if length kv = 0 then Inl (UnknownFilter kwd sel)
              else Inl (UnknownFilterTry kwd sel (map fst kv))))"
  using assms
  by (auto simp: frameFilter_def Let_def select_column_def apply_result_def
           split: sum.splits option.splits)

lemma frameFilter_unknown_keyword:
  assumes pos: "if useIndex
                then \<exists>st. index_loop c rx ex 0 selection (df, replicate (length (rows df)) True) = Inr st
                else \<exists>cs. positional_columns rx df 0 selection = Inr cs"
    and pre: "\<forall>kw \<in> set pre. fst kw \<noteq> ''match'' \<and>
             (fst kw \<in> set (map fst kv) \<or> fst kw \<in> set (columns df)
              \<or> (\<exists>column. prefixed_column df (fst kw) = Inr (Some column)))"
    and kwd: "kwd \<noteq> ''match''" "kwd \<notin> set (map fst kv)" "kwd \<notin> set (columns df)"
      "prefixed_column df kwd = Inr None"
  shows "frameFilter c df selection kv useIndex ex rx (pre @ (kwd, sel) # post) =
           Inl (if length kv = 0 then UnknownFilter kwd sel
                else UnknownFilterTry kwd sel (map fst kv))"
proof (cases useIndex)
  case True
  with pos obtain st where
    st: "index_loop c rx ex 0 selection (df, replicate (length (rows df)) True) = Inr st"
    by auto
  from view_of_index_loop [OF st] have v: "view_of (fst st) df" by simp
  then have cols: "columns (fst st) = columns df" by (simp add: view_of_def)
  from fieldPrefix_index_loop [OF st] have "fieldPrefix (fst st) = fieldPrefix df" by simp
  from prefixed_column_view [OF this cols]
  have pc: "\<And>k. prefixed_column (fst st) k = prefixed_column df k" .
  have "kwds_loop c kv ex (pre @ (kwd, sel) # post) (fst st, snd st, []) =
           Inl (if length kv = 0 then UnknownFilter kwd sel
                else UnknownFilterTry kwd sel (map fst kv))"
    using pre kwd by (intro kwds_loop_unknown) (simp_all add: cols pc)
  with True st show ?thesis by (simp add: frameFilter_def Let_def)
next
  case False
  with pos obtain cs where cs: "positional_columns rx df 0 selection = Inr cs" by auto
  have "kwds_loop c kv ex (pre @ (kwd, sel) # post)
          (df, replicate (length (rows df)) True, cs) =
           Inl (if length kv = 0 then UnknownFilter kwd sel
                else UnknownFilterTry kwd sel (map fst kv))"
    using pre kwd by (intro kwds_loop_unknown) simp_all
  with False cs show ?thesis by (simp add: frameFilter_def Let_def)
qed

subsection \<open>One qualified name on a one-level data set table\<close>


lemma col_present:
  "column \<in> set (columns df) \<Longrightarrow> col df column = Inr (map (cell df column) (rows df))"
  by (simp add: col_def cell_def)

lemma name_mask_present:
  "column \<in> set (columns df) \<Longrightarrow>
     name_mask c df column sel =
       Inr (map (\<lambda>r. re_match c (generic2regex c (cell df column r)) sel) (rows df))"
  by (simp add: name_mask_def col_present on_values_def comp_def)

lemma cell_rows_update [simp]: "cell (df\<lparr>rows := rs\<rparr>) column r = cell df column r"
  by (simp add: cell_def)


subsection \<open>Masks are functions of the single row\<close>

lemma index_result_pred:
  "(\<exists>e. \<forall>df. nlevels df = n \<longrightarrow> index_result c rx df s sel = Inl e)
   \<or> (\<exists>P. \<forall>df. nlevels df = n \<longrightarrow> index_result c rx df s sel = Inr (map P (rows df)))"
proof (cases "s < n")
  case False
  then have "\<exists>e. \<forall>df. nlevels df = n \<longrightarrow> index_result c rx df s sel = Inl e"
    by (cases sel)
      (auto simp: index_result_def get_level_values_def on_values_def is_Pattern_def)
  then show ?thesis by blast
next
  case True
  then have g: "\<And>df. nlevels df = n \<Longrightarrow>
      get_level_values df s = Inr (map (\<lambda>r::row. idx r ! s) (rows df))"
    by (simp add: get_level_values_def)
  show ?thesis
  proof (cases "rx \<or> is_Pattern sel")
    case pat: True
    show ?thesis
    proof (cases "pattern_text sel")
      case None
      with pat g have "\<forall>df. nlevels df = n \<longrightarrow> index_result c rx df s sel = Inl PyTypeError"
        by (simp add: index_result_def)
      then show ?thesis by blast
    next
      case (Some p)
      with pat g have "\<forall>df. nlevels df = n \<longrightarrow>
          index_result c rx df s sel = Inr (map (\<lambda>r::row. re_match c p (idx r ! s)) (rows df))"
        by (simp add: index_result_def comp_def)
      then show ?thesis by blast
    qed
  next
    case nopat: False
    show ?thesis
    proof (cases sel)
      case (SelStr x)
      define P where "P = (\<lambda>r::row. if is_contains_pattern x then re_search c (inner x) (idx r ! s)
                                else if is_literal x then idx r ! s = x
                                else re_match c (generic2regex c x) (idx r ! s))"
      from nopat SelStr g have "\<forall>df. nlevels df = n \<longrightarrow>
          index_result c rx df s sel = Inr (map P (rows df))"
        by (simp add: index_result_def on_values_def comp_def P_def)
      then show ?thesis by blast
    next
      case SelNone
      with nopat have "\<forall>df. nlevels df = n \<longrightarrow> index_result c rx df s sel = Inl PyTypeError"
        by (simp add: index_result_def)
      then show ?thesis by blast
    next
      case (SelPat p)
      with nopat show ?thesis by (simp add: is_Pattern_def)
    next
      case (SelList l)
      with nopat have "\<forall>df. nlevels df = n \<longrightarrow> index_result c rx df s sel = Inl PyAttributeError"
        by (simp add: index_result_def)
      then show ?thesis by blast
    next
      case (SelOther i)
      with nopat have "\<forall>df. nlevels df = n \<longrightarrow> index_result c rx df s sel = Inl PyTypeError"
        by (simp add: index_result_def)
      then show ?thesis by blast
    qed
  qed
qed

lemma column_result_pred:
  "(\<exists>e. \<forall>df. columns df = cols \<longrightarrow> column_result c rx df column sel = Inl e)
   \<or> (\<exists>P. \<forall>df. columns df = cols \<longrightarrow> column_result c rx df column sel = Inr (map P (rows df)))"
proof (cases "column \<in> set cols")
  case False
  then have "\<forall>df. columns df = cols \<longrightarrow> column_result c rx df column sel = Inl PyKeyError"
    by (simp add: column_result_def col_def)
  then show ?thesis by blast
next
  case True
  define v where "v = (\<lambda>r::row. cells r ! position column cols)"
  from True have g: "\<And>df. columns df = cols \<Longrightarrow> col df column = Inr (map v (rows df))"
    by (simp add: col_def v_def)
  show ?thesis
  proof (cases "rx \<or> is_Pattern sel")
    case pat: True
    show ?thesis
    proof (cases "pattern_text sel")
      case None
      with pat g have "\<forall>df. columns df = cols \<longrightarrow> column_result c rx df column sel = Inl PyTypeError"
        by (simp add: column_result_def)
      then show ?thesis by blast
    next
      case (Some p)
      with pat g have "\<forall>df. columns df = cols \<longrightarrow>
          column_result c rx df column sel = Inr (map (\<lambda>r. re_match c p (v r)) (rows df))"
        by (simp add: column_result_def comp_def)
      then show ?thesis by blast
    qed
  next
    case nopat: False
    define P where "P = (\<lambda>r::row. case sel of
        SelStr x \<Rightarrow>
          (if x = ''**'' then v r \<noteq> []
           else if is_contains_pattern x then re_search c (inner x) (v r)
           else if is_literal x then v r = x
           else re_match c (generic2regex c x) (v r))
      | SelList l \<Rightarrow>
          (if any_generic l then re_match c (join ''|'' (map (generic2regex c) l)) (v r)
           else v r \<in> set l)
      | _ \<Rightarrow> False)"
    from nopat g have "\<forall>df. columns df = cols \<longrightarrow>
        column_result c rx df column sel = Inr (map P (rows df))"
      by (cases sel) (simp_all add: column_result_def comp_def P_def)
    then show ?thesis by blast
  qed
qed


subsection \<open>Select mode and exclude mode side by side\<close>

lemma and_mask_map: "and_mask (map Q xs) (map P xs) = map (\<lambda>r. Q r \<and> P r) xs"
  by (induction xs) (simp_all add: and_mask_def)

lemma filter_filter_conj: "filter P (filter Q xs) = filter (\<lambda>r. Q r \<and> P r) xs"
  by (induction xs) auto

lemma index_loop_sim:
  assumes "nlevels dfS = nlevels df0" and "rows dfS = filter Q (rows df0)"
  shows "(\<exists>e. index_loop c rx False s sels (dfS, l) = Inl e
            \<and> index_loop c rx True s sels (df0, map Q (rows df0)) = Inl e)
       \<or> (\<exists>Q'. index_loop c rx False s sels (dfS, l) =
                  Inr (dfS\<lparr>rows := filter Q' (rows df0)\<rparr>, l)
            \<and> index_loop c rx True s sels (df0, map Q (rows df0)) =
                  Inr (df0, map Q' (rows df0)))"
  using assms
proof (induction sels arbitrary: s dfS Q)
  case Nil
  then have "dfS\<lparr>rows := filter Q (rows df0)\<rparr> = dfS" by (cases dfS) simp
  then show ?case by (intro disjI2 exI [of _ Q]) simp
next
  case (Cons sel sels)
  show ?case
  proof (cases "sel \<in> set (skipSelect rx)")
    case True
    with Cons.IH [OF Cons.prems, of "Suc s"] show ?thesis by simp
  next
    case False
    from index_result_pred [of "nlevels df0" c rx s sel]
    show ?thesis
    proof
      assume "\<exists>e. \<forall>df. nlevels df = nlevels df0 \<longrightarrow> index_result c rx df s sel = Inl e"
      then obtain e where "index_result c rx dfS s sel = Inl e"
        and "index_result c rx df0 s sel = Inl e"
        using Cons.prems(1) by auto
      with False show ?thesis by simp
    next
      assume "\<exists>P. \<forall>df. nlevels df = nlevels df0 \<longrightarrow>
                index_result c rx df s sel = Inr (map P (rows df))"
      then obtain P where rS: "index_result c rx dfS s sel = Inr (map P (rows dfS))"
        and r0: "index_result c rx df0 s sel = Inr (map P (rows df0))"
        using Cons.prems(1) by auto
      let ?dfS = "dfS\<lparr>rows := filter P (rows dfS)\<rparr>"
      let ?Q = "\<lambda>r. Q r \<and> P r"
      have a: "apply_result False (map P (rows dfS)) (dfS, l) = (?dfS, l)"
        by (simp add: apply_result_def loc_mask_map)
      have b: "apply_result True (map P (rows df0)) (df0, map Q (rows df0)) =
                 (df0, map ?Q (rows df0))"
        by (simp add: apply_result_def and_mask_map)
      have n: "nlevels ?dfS = nlevels df0" using Cons.prems(1) by simp
      have r: "rows ?dfS = filter ?Q (rows df0)"
        using Cons.prems(2) by (simp add: filter_filter_conj)
      have u: "\<And>Q'. ?dfS\<lparr>rows := filter Q' (rows df0)\<rparr> = dfS\<lparr>rows := filter Q' (rows df0)\<rparr>"
        by simp
      from Cons.IH [OF n r, of "Suc s"] False rS r0 a b u show ?thesis by simp
    qed
  qed
qed

lemma column_loop_sim:
  assumes "columns dfS = columns df0" and "rows dfS = filter Q (rows df0)"
  shows "(\<exists>e. column_loop c rx False cs (dfS, l) = Inl e
            \<and> column_loop c rx True cs (df0, map Q (rows df0)) = Inl e)
       \<or> (\<exists>Q'. column_loop c rx False cs (dfS, l) =
                  Inr (dfS\<lparr>rows := filter Q' (rows df0)\<rparr>, l)
            \<and> column_loop c rx True cs (df0, map Q (rows df0)) =
                  Inr (df0, map Q' (rows df0)))"
  using assms
proof (induction cs arbitrary: dfS Q)
  case Nil
  then have "dfS\<lparr>rows := filter Q (rows df0)\<rparr> = dfS" by (cases dfS) simp
  then show ?case by (intro disjI2 exI [of _ Q]) simp
next
  case (Cons x cs)
  from column_result_pred [of "columns df0" c rx "fst x" "snd x"]
  show ?case
  proof
    assume "\<exists>e. \<forall>df. columns df = columns df0 \<longrightarrow>
              column_result c rx df (fst x) (snd x) = Inl e"
    then obtain e where "column_result c rx dfS (fst x) (snd x) = Inl e"
      and "column_result c rx df0 (fst x) (snd x) = Inl e"
      using Cons.prems(1) by auto
    then show ?thesis by simp
  next
    assume "\<exists>P. \<forall>df. columns df = columns df0 \<longrightarrow>
              column_result c rx df (fst x) (snd x) = Inr (map P (rows df))"
    then obtain P where rS: "column_result c rx dfS (fst x) (snd x) = Inr (map P (rows dfS))"
      and r0: "column_result c rx df0 (fst x) (snd x) = Inr (map P (rows df0))"
      using Cons.prems(1) by auto
    let ?dfS = "dfS\<lparr>rows := filter P (rows dfS)\<rparr>"
    let ?Q = "\<lambda>r. Q r \<and> P r"
    have a: "apply_result False (map P (rows dfS)) (dfS, l) = (?dfS, l)"
      by (simp add: apply_result_def loc_mask_map)
    have b: "apply_result True (map P (rows df0)) (df0, map Q (rows df0)) =
               (df0, map ?Q (rows df0))"
      by (simp add: apply_result_def and_mask_map)
    have n: "columns ?dfS = columns df0" using Cons.prems(1) by simp
    have r: "rows ?dfS = filter ?Q (rows df0)"
      using Cons.prems(2) by (simp add: filter_filter_conj)
    have u: "\<And>Q'. ?dfS\<lparr>rows := filter Q' (rows df0)\<rparr> = dfS\<lparr>rows := filter Q' (rows df0)\<rparr>"
      by simp
    from Cons.IH [OF n r] rS r0 a b u show ?thesis by simp
  qed
qed

lemma kwds_loop_no_match:
  assumes "\<forall>kw \<in> set kwds. fst kw \<noteq> ''match''"
    and "columns df' = columns df" and "fieldPrefix df' = fieldPrefix df"
  shows "(\<exists>e. kwds_loop c kv ex kwds (df, locs, cs) = Inl e
            \<and> kwds_loop c kv ex' kwds (df', locs', cs) = Inl e)
       \<or> (\<exists>cs'. kwds_loop c kv ex kwds (df, locs, cs) = Inr (df, locs, cs')
            \<and> kwds_loop c kv ex' kwds (df', locs', cs) = Inr (df', locs', cs'))"
  using assms
proof (induction kwds arbitrary: cs)
  case Nil
  then show ?case by simp
next
  case (Cons kw kwds)
  then have pc: "prefixed_column df' (fst kw) = prefixed_column df (fst kw)"
    by (simp add: prefixed_column_def split: prefix.splits)
  from Cons.prems have nm: "fst kw \<noteq> ''match''" and rest: "\<forall>kw \<in> set kwds. fst kw \<noteq> ''match''"
    by auto
  note ih = Cons.IH [OF rest Cons.prems(2,3)]
  show ?case
  proof (cases "prefixed_column df (fst kw)")
    case (Inl e)
    with nm pc Cons.prems(2,3)
      ih [of "cs @ [(the (map_of kv (fst kw)), snd kw)]"]
      ih [of "cs @ [(fst kw, snd kw)]"]
    show ?thesis by (simp add: Let_def)
  next
    case (Inr x)
    show ?thesis
    proof (cases x)
      case None
      with Inr nm pc Cons.prems(2,3)
        ih [of "cs @ [(the (map_of kv (fst kw)), snd kw)]"]
        ih [of "cs @ [(fst kw, snd kw)]"]
      show ?thesis by (simp add: Let_def)
    next
      case (Some column)
      with Inr nm pc Cons.prems(2,3)
        ih [of "cs @ [(the (map_of kv (fst kw)), snd kw)]"]
        ih [of "cs @ [(fst kw, snd kw)]"]
        ih [of "cs @ [(column, snd kw)]"]
      show ?thesis by (simp add: Let_def)
    qed
  qed
qed


text \<open>
  The rest of the method after the positional criteria (keywords, column criteria and the
  final selection), written as the definition unfolds, for select mode, for exclude mode
  and for the conjunction over the whole table.
\<close>

lemma filter_tail_sim:
  assumes nm: "\<forall>kw \<in> set kwds. fst kw \<noteq> ''match''"
    and dfS: "dfS = df0\<lparr>rows := filter Q (rows df0)\<rparr>"
  shows "(\<exists>e.
      (case kwds_loop c kv False kwds (dfS, l, cs) of
         Inl e \<Rightarrow> Inl e
       | Inr (df', locs', columnSelect) \<Rightarrow>
           (case column_loop c rx False columnSelect (df', locs') of
              Inl e \<Rightarrow> Inl e
            | Inr st' \<Rightarrow> Inr (if False then loc_mask (fst st') (map Not (snd st')) else fst st'))) = Inl e
    \<and> (case kwds_loop c kv True kwds (df0, map Q (rows df0), cs) of
         Inl e \<Rightarrow> Inl e
       | Inr (df', locs', columnSelect) \<Rightarrow>
           (case column_loop c rx True columnSelect (df', locs') of
              Inl e \<Rightarrow> Inl e
            | Inr st' \<Rightarrow> Inr (if True then loc_mask (fst st') (map Not (snd st')) else fst st'))) = Inl e
    \<and> (case kwds_loop c kv True kwds (df0, map Q (rows df0), cs) of
         Inl e \<Rightarrow> Inl e
       | Inr (df', locs', columnSelect) \<Rightarrow>
           (case column_loop c rx True columnSelect (df', locs') of
              Inl e \<Rightarrow> Inl e
            | Inr st' \<Rightarrow> Inr (loc_mask df0 (snd st')))) = Inl e)
  \<or> (\<exists>Q'.
      (case kwds_loop c kv False kwds (dfS, l, cs) of
         Inl e \<Rightarrow> Inl e
       | Inr (df', locs', columnSelect) \<Rightarrow>
           (case column_loop c rx False columnSelect (df', locs') of
              Inl e \<Rightarrow> Inl e
            | Inr st' \<Rightarrow> Inr (if False then loc_mask (fst st') (map Not (snd st')) else fst st'))) = Inr (df0\<lparr>rows := filter Q' (rows df0)\<rparr>)
    \<and> (case kwds_loop c kv True kwds (df0, map Q (rows df0), cs) of
         Inl e \<Rightarrow> Inl e
       | Inr (df', locs', columnSelect) \<Rightarrow>
           (case column_loop c rx True columnSelect (df', locs') of
              Inl e \<Rightarrow> Inl e
            | Inr st' \<Rightarrow> Inr (if True then loc_mask (fst st') (map Not (snd st')) else fst st'))) =
        Inr (df0\<lparr>rows := filter (\<lambda>r. \<not> Q' r) (rows df0)\<rparr>)
    \<and> (case kwds_loop c kv True kwds (df0, map Q (rows df0), cs) of
         Inl e \<Rightarrow> Inl e
       | Inr (df', locs', columnSelect) \<Rightarrow>
           (case column_loop c rx True columnSelect (df', locs') of
              Inl e \<Rightarrow> Inl e
            | Inr st' \<Rightarrow> Inr (loc_mask df0 (snd st')))) =
        Inr (df0\<lparr>rows := filter Q' (rows df0)\<rparr>))"
proof -
  have cols: "columns df0 = columns dfS" and pre: "fieldPrefix df0 = fieldPrefix dfS"
    and rows: "rows dfS = filter Q (rows df0)"
    using dfS by simp_all
  from kwds_loop_no_match [OF nm cols pre, of c kv False l cs True "map Q (rows df0)"]
  show ?thesis
  proof
    assume "\<exists>e. kwds_loop c kv False kwds (dfS, l, cs) = Inl e
              \<and> kwds_loop c kv True kwds (df0, map Q (rows df0), cs) = Inl e"
    then show ?thesis by auto
  next
    assume "\<exists>cs'. kwds_loop c kv False kwds (dfS, l, cs) = Inr (dfS, l, cs')
              \<and> kwds_loop c kv True kwds (df0, map Q (rows df0), cs) =
                  Inr (df0, map Q (rows df0), cs')"
    then obtain cs' where k1: "kwds_loop c kv False kwds (dfS, l, cs) = Inr (dfS, l, cs')"
      and k2: "kwds_loop c kv True kwds (df0, map Q (rows df0), cs) =
                  Inr (df0, map Q (rows df0), cs')"
      by blast
    from column_loop_sim [OF cols [symmetric] rows, of c rx cs' l]
    show ?thesis
    proof
      assume "\<exists>e. column_loop c rx False cs' (dfS, l) = Inl e
                \<and> column_loop c rx True cs' (df0, map Q (rows df0)) = Inl e"
      with k1 k2 show ?thesis by auto
    next
      assume "\<exists>Q'. column_loop c rx False cs' (dfS, l) =
                       Inr (dfS\<lparr>rows := filter Q' (rows df0)\<rparr>, l)
                \<and> column_loop c rx True cs' (df0, map Q (rows df0)) =
                       Inr (df0, map Q' (rows df0))"
      then obtain Q' where c1: "column_loop c rx False cs' (dfS, l) =
                       Inr (dfS\<lparr>rows := filter Q' (rows df0)\<rparr>, l)"
        and c2: "column_loop c rx True cs' (df0, map Q (rows df0)) =
                       Inr (df0, map Q' (rows df0))"
        by blast
      have u: "dfS\<lparr>rows := filter Q' (rows df0)\<rparr> = df0\<lparr>rows := filter Q' (rows df0)\<rparr>"
        using dfS by simp
      have n: "loc_mask df0 (map Not (map Q' (rows df0))) =
                 df0\<lparr>rows := filter (\<lambda>r. \<not> Q' r) (rows df0)\<rparr>"
        using loc_mask_map [of df0 "\<lambda>r. \<not> Q' r"] by (simp add: comp_def)
      show ?thesis
        using k1 k2 c1 c2 u n by (intro disjI2 exI [of _ Q']) (simp add: loc_mask_map)
    qed
  qed
qed

lemma frameFilter_partition:
  assumes nm: "\<forall>kw \<in> set kwds. fst kw \<noteq> ''match''"
  shows "(\<exists>e. frameFilter c df selection kv useIndex False rx kwds = Inl e
            \<and> frameFilter c df selection kv useIndex True rx kwds = Inl e
            \<and> conjunction_select c df selection kv useIndex rx kwds = Inl e)
       \<or> (\<exists>Q. frameFilter c df selection kv useIndex False rx kwds =
                 Inr (df\<lparr>rows := filter Q (rows df)\<rparr>)
            \<and> frameFilter c df selection kv useIndex True rx kwds =
                 Inr (df\<lparr>rows := filter (\<lambda>r. \<not> Q r) (rows df)\<rparr>)
            \<and> conjunction_select c df selection kv useIndex rx kwds =
                 Inr (df\<lparr>rows := filter Q (rows df)\<rparr>))"
proof -
  let ?locs = "replicate (length (rows df)) True"
  have locs: "?locs = map (\<lambda>r. True) (rows df)" by (simp add: map_replicate_const)
  show ?thesis
  proof (cases useIndex)
    case True
    have r: "rows df = filter (\<lambda>r. True) (rows df)" by simp
    from index_loop_sim [OF refl r, of c rx 0 selection ?locs]
    show ?thesis
    proof
      assume "\<exists>e. index_loop c rx False 0 selection (df, ?locs) = Inl e
                \<and> index_loop c rx True 0 selection (df, map (\<lambda>r. True) (rows df)) = Inl e"
      with True locs show ?thesis
        by (auto simp: frameFilter_def conjunction_select_def Let_def)
    next
      assume "\<exists>Q'. index_loop c rx False 0 selection (df, ?locs) =
                       Inr (df\<lparr>rows := filter Q' (rows df)\<rparr>, ?locs)
                \<and> index_loop c rx True 0 selection (df, map (\<lambda>r. True) (rows df)) =
                       Inr (df, map Q' (rows df))"
      then obtain Q where i1: "index_loop c rx False 0 selection (df, ?locs) =
                       Inr (df\<lparr>rows := filter Q (rows df)\<rparr>, ?locs)"
        and i2: "index_loop c rx True 0 selection (df, ?locs) = Inr (df, map Q (rows df))"
        using locs by auto
      from filter_tail_sim [OF nm refl, where c = c and kv = kv and ?df0.0 = df and Q = Q
          and l = ?locs and cs = "[]" and rx = rx] True i1 i2
      show ?thesis
        by (simp add: frameFilter_def conjunction_select_def Let_def)
    qed
  next
    case False
    show ?thesis
    proof (cases "positional_columns rx df 0 selection")
      case (Inl e)
      with False show ?thesis
        by (simp add: frameFilter_def conjunction_select_def Let_def)
    next
      case (Inr cs)
      have d: "df = df\<lparr>rows := filter (\<lambda>r. True) (rows df)\<rparr>" by simp
      from filter_tail_sim [OF nm d, where c = c and kv = kv and l = ?locs and cs = cs
          and rx = rx] False Inr locs
      show ?thesis
        by (simp add: frameFilter_def conjunction_select_def Let_def)
    qed
  qed
qed

subsection \<open>The walk over the classes\<close>

lemma contiguous_tail: "contiguous (x # xs) \<Longrightarrow> contiguous xs"
  by simp

lemma contiguous_same_head: "contiguous (v # v # l) \<Longrightarrow> contiguous (v # l)"
  by auto

lemma contiguous_filter_hd:
  "contiguous (v # map f xs) \<Longrightarrow> v \<in> f ` set (filter P xs) \<Longrightarrow> hd (map f (filter P xs)) = v"
proof (induction xs)
  case Nil
  then show ?case by simp
next
  case (Cons y ys)
  have "set (filter P (y # ys)) \<subseteq> set (y # ys)" by (rule filter_is_subset)
  with Cons.prems(2) have "v \<in> f ` set (y # ys)" by blast
  then have "v \<in> set (f y # map f ys)" by simp
  with Cons.prems(1) have fy: "f y = v" by auto
  show ?case
  proof (cases "P y")
    case True
    with fy show ?thesis by simp
  next
    case False
    from Cons.prems(1) fy have "contiguous (v # map f ys)" by simp
    moreover from False Cons.prems(2) have "v \<in> f ` set (filter P ys)" by simp
    ultimately have "hd (map f (filter P ys)) = v" by (rule Cons.IH)
    with False show ?thesis by simp
  qed
qed

lemma contiguous_filter: "contiguous (map f xs) \<Longrightarrow> contiguous (map f (filter P xs))"
proof (induction xs)
  case Nil
  then show ?case by simp
next
  case (Cons x xs)
  then have ih: "contiguous (map f (filter P xs))" by simp
  show ?case
  proof (cases "P x")
    case False
    with ih show ?thesis by simp
  next
    case True
    from Cons.prems have c: "contiguous (f x # map f xs)" by simp
    have "f x \<in> set (map f (filter P xs)) \<longrightarrow> hd (map f (filter P xs)) = f x"
      using contiguous_filter_hd [OF c, of P] by auto
    with True ih show ?thesis by simp
  qed
qed

lemma label_pair_unpack:
  "unpack2 (nlevels t) (idx r) = Inr i \<Longrightarrow> label_pair t r = Some i"
  "unpack2 (nlevels t) (idx r) = Inr i \<Longrightarrow> label_class t r = Some (fst i)"
  by (simp_all add: label_pair_def label_class_def)

lemma gr_walk_keeps_first:
  assumes "gr_walk (nlevels t) (map idx M) (pc, pr) = Inr w"
    and "contiguous (Some pc # map (label_class t) M)"
  shows "length (fst w) = length M \<and> (\<forall>r \<in> set M. label_pair t r \<noteq> None)
     \<and> (\<forall>rb \<in> set (zip M (fst w)). snd rb \<longrightarrow>
          (label_class t (fst rb) = Some pc \<and> map_option snd (label_pair t (fst rb)) = pr)
          \<or> (label_class t (fst rb) \<noteq> Some pc
             \<and> (\<exists>f. List.find (\<lambda>x. label_class t x = label_class t (fst rb)) M = Some f
                    \<and> label_pair t f = label_pair t (fst rb))))"
  using assms
proof (induction M arbitrary: pc pr w)
  case Nil
  then show ?case by auto
next
  case (Cons r M)
  from Cons.prems(1) obtain i where i: "unpack2 (nlevels t) (idx r) = Inr i"
    by (auto split: sum.splits)
  note lp = label_pair_unpack [OF i]
  define st where "st = (if fst i \<noteq> pc then (fst i, Some (snd i)) else (pc, pr))"
  from Cons.prems(1) i obtain x where x: "snd st = Some x"
    by (auto simp: st_def Let_def split: option.splits sum.splits if_splits)
  from Cons.prems(1) i x obtain w' where
    w': "gr_walk (nlevels t) (map idx M) st = Inr w'"
    and w: "w = ((fst i = fst st \<and> snd i = x) # fst w', snd w')"
    by (auto simp: st_def Let_def split: option.splits sum.splits if_splits)
  have cont: "contiguous (Some (fst st) # map (label_class t) M)"
  proof (cases "fst i \<noteq> pc")
    case True
    with Cons.prems(2) lp show ?thesis by (simp add: st_def)
  next
    case False
    with Cons.prems(2) lp show ?thesis by (auto simp: st_def)
  qed
  have st_eq: "st = (fst st, snd st)" by simp
  from Cons.IH [of "fst st" "snd st" w'] w' cont
  have ih: "length (fst w') = length M \<and> (\<forall>r \<in> set M. label_pair t r \<noteq> None)
     \<and> (\<forall>rb \<in> set (zip M (fst w')). snd rb \<longrightarrow>
          (label_class t (fst rb) = Some (fst st)
             \<and> map_option snd (label_pair t (fst rb)) = snd st)
          \<or> (label_class t (fst rb) \<noteq> Some (fst st)
             \<and> (\<exists>f. List.find (\<lambda>x. label_class t x = label_class t (fst rb)) M = Some f
                    \<and> label_pair t f = label_pair t (fst rb))))"
    by simp
  have len: "length (fst w) = length (r # M)" using ih w by simp
  have pairs: "\<forall>r' \<in> set (r # M). label_pair t r' \<noteq> None" using ih lp by simp
  have keep: "\<forall>rb \<in> set (zip (r # M) (fst w)). snd rb \<longrightarrow>
          (label_class t (fst rb) = Some pc \<and> map_option snd (label_pair t (fst rb)) = pr)
          \<or> (label_class t (fst rb) \<noteq> Some pc
             \<and> (\<exists>f. List.find (\<lambda>x. label_class t x = label_class t (fst rb)) (r # M) = Some f
                    \<and> label_pair t f = label_pair t (fst rb)))"
  proof (intro ballI impI)
    fix rb assume rb: "rb \<in> set (zip (r # M) (fst w))" and b: "snd rb"
    from rb w have "rb = (r, fst i = fst st \<and> snd i = x) \<or> rb \<in> set (zip M (fst w'))"
      by auto
    then show "(label_class t (fst rb) = Some pc
                  \<and> map_option snd (label_pair t (fst rb)) = pr)
          \<or> (label_class t (fst rb) \<noteq> Some pc
             \<and> (\<exists>f. List.find (\<lambda>x. label_class t x = label_class t (fst rb)) (r # M) = Some f
                    \<and> label_pair t f = label_pair t (fst rb)))"
    proof
      assume hd: "rb = (r, fst i = fst st \<and> snd i = x)"
      show ?thesis
      proof (cases "fst i \<noteq> pc")
        case True
        with hd lp show ?thesis by simp
      next
        case False
        with hd b x lp show ?thesis by (simp add: st_def)
      qed
    next
      assume tl: "rb \<in> set (zip M (fst w'))"
      then have mem: "fst rb \<in> set M"
        using set_zip_leftD [of "fst rb" "snd rb" M "fst w'"] by simp
      from ih tl b have d:
        "(label_class t (fst rb) = Some (fst st)
             \<and> map_option snd (label_pair t (fst rb)) = snd st)
          \<or> (label_class t (fst rb) \<noteq> Some (fst st)
             \<and> (\<exists>f. List.find (\<lambda>x. label_class t x = label_class t (fst rb)) M = Some f
                    \<and> label_pair t f = label_pair t (fst rb)))"
        by blast
      show ?thesis
      proof (cases "fst i \<noteq> pc")
        case True
        then have st: "st = (fst i, Some (snd i))" by (simp add: st_def)
        from True Cons.prems(2) lp have "Some pc \<notin> set (map (label_class t) M)"
          by auto
        with mem have npc: "label_class t (fst rb) \<noteq> Some pc" by force
        from d show ?thesis
        proof
          assume a: "label_class t (fst rb) = Some (fst st)
             \<and> map_option snd (label_pair t (fst rb)) = snd st"
          with st lp have cls: "label_class t (fst rb) = label_class t r" by simp
          from a st have "label_pair t (fst rb) = Some i"
            by (cases "label_pair t (fst rb)") (auto simp: label_class_def prod_eq_iff)
          with lp cls npc show ?thesis by simp
        next
          assume a: "label_class t (fst rb) \<noteq> Some (fst st)
             \<and> (\<exists>f. List.find (\<lambda>x. label_class t x = label_class t (fst rb)) M = Some f
                    \<and> label_pair t f = label_pair t (fst rb))"
          with st lp have "label_class t r \<noteq> label_class t (fst rb)" by auto
          with a npc show ?thesis by simp
        qed
      next
        case False
        then have st: "st = (pc, pr)" by (simp add: st_def)
        from d show ?thesis
        proof
          assume "label_class t (fst rb) = Some (fst st)
             \<and> map_option snd (label_pair t (fst rb)) = snd st"
          with st show ?thesis by simp
        next
          assume a: "label_class t (fst rb) \<noteq> Some (fst st)
             \<and> (\<exists>f. List.find (\<lambda>x. label_class t x = label_class t (fst rb)) M = Some f
                    \<and> label_pair t f = label_pair t (fst rb))"
          with st False lp have "label_class t r \<noteq> label_class t (fst rb)" by auto
          with a st show ?thesis by simp
        qed
      qed
    qed
  qed
  from len pairs keep show ?case by blast
qed

lemma name_mask_Inr:
  assumes "name_mask c df column sel = Inr m"
  shows "m = map (\<lambda>r. re_match c (generic2regex c (cell df column r)) sel) (rows df)"
proof -
  from assms have "column \<in> set (columns df)"
    by (auto simp: name_mask_def col_def on_values_def split: if_splits)
  from name_mask_present [OF this, of c sel] assms show ?thesis by simp
qed

lemma rows_loc_mask_zip: "rows (loc_mask df m) = map fst (filter snd (zip (rows df) m))"
  by (simp add: loc_mask_def)

lemma gr_loop_first:
  assumes "gr_loop c p start names st = Inr st'"
    and "contiguous (map (label_class start) (rows start))"
    and "\<forall>r \<in> set (rows start). label_class start r \<noteq> Some []"
    and "\<forall>f \<in> set (fst st). \<forall>r \<in> set (rows f).
           \<exists>n. SelStr n \<in> N \<and> first_in_class c start (p @ ''NAME'') n r"
    and "set names \<subseteq> N"
  shows "\<forall>f \<in> set (fst st'). \<forall>r \<in> set (rows f).
           \<exists>n. SelStr n \<in> N \<and> first_in_class c start (p @ ''NAME'') n r"
  using assms
proof (induction c p start names st rule: gr_loop.induct)
  case (1 c p start st)
  then show ?case by simp
next
  case (2 c p start sel rest st)
  let ?col = "p @ ''NAME''"
  let ?M = "matching_rows c start ?col sel"
  from "2.prems"(1) obtain m w where
    m: "name_mask c start ?col sel = Inr m"
    and w: "gr_walk (nlevels (loc_mask start m)) (map idx (rows (loc_mask start m))) ([], snd st)
              = Inr w"
    and rest: "gr_loop c p start rest
                 (fst st @ [loc_mask (loc_mask start m) (fst w)], snd w) = Inr st'"
    by (auto simp: Let_def split: sum.splits)
  have rowsM: "rows (loc_mask start m) = ?M"
    using name_mask_Inr [OF m] by (simp add: matching_rows_def)
  from w rowsM have w2: "gr_walk (nlevels start) (map idx ?M) ([], snd st) = Inr w" by simp
  have sub: "set ?M \<subseteq> set (rows start)" by (auto simp: matching_rows_def)
  have c1: "contiguous (map (label_class start) ?M)"
    unfolding matching_rows_def using "2.prems"(2) by (rule contiguous_filter)
  from sub "2.prems"(3) have ne: "Some [] \<notin> set (map (label_class start) ?M)" by force
  with c1 have c2: "contiguous (Some [] # map (label_class start) ?M)" by simp
  note walk = gr_walk_keeps_first [OF w2 c2]
  have new: "\<forall>r \<in> set (rows (loc_mask (loc_mask start m) (fst w))).
               first_in_class c start ?col sel r"
  proof
    fix r assume "r \<in> set (rows (loc_mask (loc_mask start m) (fst w)))"
    then have "r \<in> set (map fst (filter snd (zip ?M (fst w))))"
      unfolding rows_loc_mask_zip [of "loc_mask start m" "fst w"] rowsM .
    then have "(r, True) \<in> set (zip ?M (fst w))" by auto
    moreover from this have rM: "r \<in> set ?M" by (rule set_zip_leftD)
    moreover from rM ne have "label_class start r \<noteq> Some []" by force
    ultimately show "first_in_class c start ?col sel r"
      using walk by (fastforce simp: first_in_class_def)
  qed
  from "2.prems"(5) have selN: "SelStr sel \<in> N" and restN: "set rest \<subseteq> N" by auto
  from new selN "2.prems"(4)
  have frames: "\<forall>f \<in> set (fst (fst st @ [loc_mask (loc_mask start m) (fst w)], snd w)).
      \<forall>r \<in> set (rows f). \<exists>n. SelStr n \<in> N \<and> first_in_class c start ?col n r"
    by auto
  from "2.IH" [OF m refl w rest "2.prems"(2,3) frames restN] show ?case .
qed (auto split: sum.splits)

lemma rows_collect:
  assumes "r \<in> set (rows (collect df frames))"
  shows "\<exists>f \<in> set frames. r \<in> set (rows f)"
proof (cases frames)
  case Nil
  with assms show ?thesis by (simp add: collect_def head_def)
next
  case (Cons f fs)
  show ?thesis
  proof (cases fs)
    case Nil
    with Cons assms show ?thesis by (simp add: collect_def)
  next
    case (Cons g gs)
    with \<open>frames = f # fs\<close> assms
    have "r \<in> set (first_occurrences [] (concat (map rows frames)))"
      by (simp add: collect_def drop_duplicates_def concat_frames_def)
    with first_occurrences_subset [of "[]" "concat (map rows frames)"]
    have "r \<in> set (concat (map rows frames))" by blast
    then show ?thesis by auto
  qed
qed

lemma first_in_class_same:
  assumes "first_in_class c start column n r1" and "first_in_class c start column n r2"
    and "label_class start r1 = label_class start r2"
  shows "label_pair start r1 = label_pair start r2"
  using assms by (auto simp: first_in_class_def)

subsection \<open>The modelled collaborator and the accumulator of exclude mode\<close>

text \<open>
  \<^verbatim>\<open>find\<close> as modelled is the filter engine itself, called with the class as its one
  positional value on the index; and in exclude mode no loop narrows the frame, so every
  mask that is folded into \<^verbatim>\<open>locs\<close> is computed against the original table.
\<close>

lemma find_is_frameFilter:
  "find c df cls = frameFilter c df [SelStr cls] kwdValues True False False []"
  by (simp add: find_def frameFilter_def Let_def split: sum.splits)

lemma index_loop_exclude_frame:
  "index_loop c rx True s sels st = Inr st' \<Longrightarrow> fst st' = fst st"
proof (induction sels arbitrary: s st)
  case Nil
  then show ?case by simp
next
  case (Cons sel sels)
  show ?case
  proof (cases "sel \<in> set (skipSelect rx)")
    case True
    with Cons show ?thesis by simp
  next
    case False
    with Cons.prems obtain result where
      "index_loop c rx True (Suc s) sels (apply_result True result st) = Inr st'"
      by (auto split: sum.splits)
    from Cons.IH [OF this] show ?thesis by (simp add: apply_result_def)
  qed
qed

lemma column_loop_exclude_frame:
  "column_loop c rx True cs st = Inr st' \<Longrightarrow> fst st' = fst st"
proof (induction cs arbitrary: st)
  case Nil
  then show ?case by simp
next
  case (Cons x cs)
  from Cons.prems obtain result where
    "column_loop c rx True cs (apply_result True result st) = Inr st'"
    by (auto split: sum.splits)
  from Cons.IH [OF this] show ?case by (simp add: apply_result_def)
qed

lemma kwds_loop_exclude_frame:
  "kwds_loop c kv True kwds st = Inr st' \<Longrightarrow> fst st' = fst st"
proof (induction c kv "True" kwds st rule: kwds_loop.induct)
  case (1 c kv st)
  then show ?case by simp
next
  case (2 c kv kw rest df locs cs)
  from "2.prems" "2.hyps" show ?case
    by (auto simp: Let_def split: if_splits sum.splits option.splits)
qed

section \<open>A bare star on an index level\<close>

text \<open>
  C4, as the code has it: a bare \<open>*\<close> as a positional value on an index level
  (\<^verbatim>\<open>useIndex=True\<close>, no \<^verbatim>\<open>regexPattern\<close>) is not among the values that are skipped; line 43
  sends it to the equality test of line 44. On every table, filtering level \<open>s\<close> with the
  single value \<open>*\<close> (the levels before it left open with \<^verbatim>\<open>None\<close>) keeps exactly the rows
  whose label on that level is the text \<open>*\<close> itself.
\<close>

theorem star_on_index_level_is_equality:
  assumes "s < nlevels df"
  shows "frameFilter c df (replicate s SelNone @ [SelStr ''*'']) kwdValues True False False [] =
           Inr (df\<lparr>rows := filter (\<lambda>r. idx r ! s = ''*'') (rows df)\<rparr>)"
proof -
  have "index_result c False df s (SelStr ''*'') = Inr (map (\<lambda>r. idx r ! s = ''*'') (rows df))"
    using assms
    by (simp add: index_result_def is_Pattern_def star_literal on_values_def
        get_level_values_def comp_def)
  then show ?thesis
    by (simp add: frameFilter_def index_loop_skip skipSelect_def apply_result_def loc_mask_map)
qed

text \<open>The theorem at the data set profile table: none of its two profiles is named \<open>*\<close>.\<close>

theorem star_on_index_level_witness:
  "(0::nat) < nlevels ds_profiles
   \<and> frameFilter demo ds_profiles [SelStr ''*''] [] True False False [] =
       Inr (ds_profiles\<lparr>rows := []\<rparr>)"
  using star_on_index_level_is_equality [of 0 ds_profiles demo "[]"]
  by (simp add: ds_profiles_def)

text \<open>
  C4 as the claim states it (the star keeps every row) fails on that table: the table has
  two rows and the result has none.
\<close>

theorem star_on_index_level_counterexample:
  "frameFilter demo ds_profiles [SelStr ''*''] [] True False False [] = Inr (head 0 ds_profiles)
   \<and> length (rows ds_profiles) = 2"
  by code_simp

section \<open>The errors and the empty class slice of \<^verbatim>\<open>match\<close>\<close>

text \<open>
  C10: on a general resource table, when \<^verbatim>\<open>match\<close> gets a class and a resource name and
  the class narrowing returns an empty slice, the result is the input frame with no row
  left (its field prefix, index levels and columns are the input's, its list of rows is
  empty), whatever the second argument is: the loop over the queried names is not entered.
\<close>

theorem match_empty_class_slice:
  assumes "fieldPrefix df = Text p" and "take 2 p = ''GR''"
    and "class_slice c df a0 = Inr start" and "empty start"
  shows "match c df [a0, a1] = Inr (df\<lparr>rows := []\<rparr>)"
  using assms by (simp add: match_def gr_scope_def collect_def head_def)

text \<open>The theorem at a class the table has no row for, with a second argument that is not
  even a text.\<close>

theorem match_empty_class_slice_witness:
  "match demo gr_profiles [SelStr ''DATASET'', SelOther 7] = Inr (gr_profiles\<lparr>rows := []\<rparr>)"
proof -
  have a: "fieldPrefix gr_profiles = Text ''GRBD_''" by (simp add: gr_profiles_def)
  have b: "take 2 ''GRBD_'' = ''GR''" by simp
  have d: "class_slice demo gr_profiles (SelStr ''DATASET'') = Inr (gr_profiles\<lparr>rows := []\<rparr>)"
    by code_simp
  have e: "empty (gr_profiles\<lparr>rows := []\<rparr>)" by (simp add: empty_def)
  show ?thesis by (rule match_empty_class_slice [OF a b d e])
qed

text \<open>
  C8: on a data set table, \<^verbatim>\<open>match\<close> with any number of positional arguments other than
  one fails with the arity error before it looks at a name, and \<^verbatim>\<open>match\<close> with a name
  without a dot fails with the error for a name that is not qualified: as the only name,
  as the first name of a list, and (with some error) anywhere in a list.
\<close>

theorem match_dataset_errors:
  assumes "fieldPrefix df = Text p" and "take 2 p = ''DS''"
  shows "(length selection \<noteq> 1 \<longrightarrow> match c df selection = Inl MatchOneParameter)
       \<and> (CHR ''.'' \<notin> set name \<longrightarrow> match c df [SelStr name] = Inl (NotQualified name))
       \<and> (CHR ''.'' \<notin> set name \<longrightarrow>
            match c df [SelList (name # names)] = Inl (NotQualified name))
       \<and> (CHR ''.'' \<notin> set name \<and> name \<in> set names \<longrightarrow>
            (\<exists>e. match c df [SelList names] = Inl e))"
proof (intro conjI impI)
  show "match c df selection = Inl MatchOneParameter" if "length selection \<noteq> 1"
    using assms that by (simp add: match_def)
  show "match c df [SelStr name] = Inl (NotQualified name)" if "CHR ''.'' \<notin> set name"
    using assms that by (simp add: match_def listMe_def qualifier_empty)
  show "match c df [SelList (name # names)] = Inl (NotQualified name)"
    if "CHR ''.'' \<notin> set name"
    using assms that by (simp add: match_def listMe_def qualifier_empty)
  show "\<exists>e. match c df [SelList names] = Inl e"
    if "CHR ''.'' \<notin> set name \<and> name \<in> set names"
  proof -
    from that ds_loop_unqualified [of name names c df p "[]"]
    obtain e where "ds_loop c df p (map SelStr names) [] = Inl e" by blast
    with assms show ?thesis by (simp add: match_def listMe_def)
  qed
qed

text \<open>The theorem at the data set profile table and the name \<open>NODOTS\<close>.\<close>

theorem match_dataset_errors_witness:
  "match demo ds_profiles [] = Inl MatchOneParameter
   \<and> match demo ds_profiles [SelStr ''NODOTS''] = Inl (NotQualified ''NODOTS'')
   \<and> match demo ds_profiles [SelList [''NODOTS'', ''SYS1.PROCLIB'', ''NODOTS'']] =
       Inl (NotQualified ''NODOTS'')
   \<and> (\<exists>e. match demo ds_profiles [SelList [''SYS1.PROCLIB'', ''NODOTS'']] = Inl e)"
proof -
  have a: "fieldPrefix ds_profiles = Text ''DSBD_''" by (simp add: ds_profiles_def)
  have b: "take 2 ''DSBD_'' = ''DS''" by simp
  show ?thesis
    using match_dataset_errors
      [OF a b, of "[]" demo "''NODOTS''" "[''SYS1.PROCLIB'', ''NODOTS'']"]
    by simp
qed

text \<open>
  C6: \<^verbatim>\<open>match\<close> on a data set table with a qualified name should return without an
  error, with nothing for a name that no profile covers. The code does so on a one-level
  index and not on a multi-level index. The data set permission table holds the permits
  of the profile \<open>SYS1.PARMLIB\<close> only; the queried name \<open>SYS1.PROCLIB\<close> has a dot, its
  qualifier \<open>SYS1.\<close> leaves both rows, no profile name matches, and on the three-level
  index line 173 reads the first label of an empty frame: an \<^verbatim>\<open>IndexError\<close>. On the
  one-level table of \<open>XSYS1.DATA\<close> and \<open>SYS2.PROCLIB\<close> the same query, where the
  qualifier leaves a row and no name matches either, returns the frame without rows.
\<close>

theorem match_permits_without_profile:
  "match demo ds_permits [SelStr ''SYS1.PROCLIB''] = Inl PyIndexError
   \<and> match demo ds_inner [SelStr ''SYS1.PROCLIB''] = Inr (ds_inner\<lparr>rows := []\<rparr>)"
  by code_simp

(*C9*)

section \<open>Keyword criteria\<close>

text \<open>
  C7: every keyword other than \<^verbatim>\<open>match\<close> should be resolved in the order alias, column,
  column with the field prefix, and fail with the unknown-filter error when none of them
  applies. The method does not do so for a keyword that comes after the keyword
  \<^verbatim>\<open>match\<close> with a list of names: \<^verbatim>\<open>match\<close> then returns the frame that \<^verbatim>\<open>pd.concat\<close> built,
  whose \<^verbatim>\<open>_fieldPrefix\<close> is \<^verbatim>\<open>None\<close>, select mode goes on with that frame (line 65), and line
  72 adds the keyword to \<^verbatim>\<open>None\<close>: a \<^verbatim>\<open>TypeError\<close> of the interpreter. On the data set
  table of \<open>XSYS1.DATA\<close> and \<open>SYS2.PROCLIB\<close>, after \<^verbatim>\<open>match\<close> of both names, the keyword
  \<open>UACC\<close> (the column \<open>DSBD_UACC\<close> by the field prefix) is not resolved and the keyword
  \<open>owner\<close> (no alias, no column) does not get the unknown-filter error. After \<^verbatim>\<open>match\<close> of
  one name, and before \<^verbatim>\<open>match\<close> of the two names, the keyword \<open>UACC\<close> is resolved.
\<close>

theorem keyword_after_match_of_names:
  "frameFilter demo ds_inner [] [] False False False
       [(''match'', SelList [''XSYS1.DATA'', ''SYS2.PROCLIB'']), (''UACC'', SelStr ''READ'')] =
     Inl PyTypeError
   \<and> frameFilter demo ds_inner [] [] False False False
       [(''match'', SelList [''XSYS1.DATA'', ''SYS2.PROCLIB'']), (''owner'', SelStr ''IBMUSER'')] =
     Inl PyTypeError
   \<and> frameFilter demo ds_inner [] [] False False False
       [(''match'', SelStr ''XSYS1.DATA''), (''UACC'', SelStr ''READ'')] =
     Inr (ds_inner\<lparr>rows := [\<lparr>idx = [''XSYS1.DATA''], cells = [''XSYS1.DATA'', ''READ'']\<rparr>]\<rparr>)
   \<and> frameFilter demo ds_inner [] [] False False False
       [(''UACC'', SelStr ''READ''), (''match'', SelList [''XSYS1.DATA'', ''SYS2.PROCLIB''])] =
     Inr (ds_inner\<lparr>fieldPrefix := NoneValue,
            rows := [\<lparr>idx = [''XSYS1.DATA''], cells = [''XSYS1.DATA'', ''READ'']\<rparr>]\<rparr>)"
  by code_simp

section \<open>The qualifier filter of \<^verbatim>\<open>match\<close> on data set tables\<close>




section \<open>Select and exclude\<close>

text \<open>
  Without the keyword \<^verbatim>\<open>match\<close> every criterion is a test of the single row, and the two
  modes agree: for every table and every set of positional and keyword criteria, the call
  with \<^verbatim>\<open>exclude=False\<close> and the call with \<^verbatim>\<open>exclude=True\<close> fail together (with the same
  error) or return together, and then the rows of the two results are disjoint, their
  union is the rows of the input, and their numbers add up to the number of rows of the
  input.
\<close>

lemma partition_without_match:
  assumes "\<forall>kw \<in> set kwds. fst kw \<noteq> ''match''"
  shows "(\<forall>e. frameFilter c df selection kwdValues useIndex False regexPattern kwds = Inl e
              \<longleftrightarrow> frameFilter c df selection kwdValues useIndex True regexPattern kwds = Inl e)
       \<and> (\<forall>t1 t2.
            frameFilter c df selection kwdValues useIndex False regexPattern kwds = Inr t1
            \<and> frameFilter c df selection kwdValues useIndex True regexPattern kwds = Inr t2
            \<longrightarrow> set (rows t1) \<inter> set (rows t2) = {}
              \<and> set (rows t1) \<union> set (rows t2) = set (rows df)
              \<and> length (rows t1) + length (rows t2) = length (rows df))"
  using frameFilter_partition [OF assms, of c df selection kwdValues useIndex regexPattern]
proof
  assume "\<exists>e. frameFilter c df selection kwdValues useIndex False regexPattern kwds = Inl e
            \<and> frameFilter c df selection kwdValues useIndex True regexPattern kwds = Inl e
            \<and> conjunction_select c df selection kwdValues useIndex regexPattern kwds = Inl e"
  then show ?thesis by auto
next
  assume "\<exists>Q. frameFilter c df selection kwdValues useIndex False regexPattern kwds =
                 Inr (df\<lparr>rows := filter Q (rows df)\<rparr>)
            \<and> frameFilter c df selection kwdValues useIndex True regexPattern kwds =
                 Inr (df\<lparr>rows := filter (\<lambda>r. \<not> Q r) (rows df)\<rparr>)
            \<and> conjunction_select c df selection kwdValues useIndex regexPattern kwds =
                 Inr (df\<lparr>rows := filter Q (rows df)\<rparr>)"
  then obtain Q where
    s: "frameFilter c df selection kwdValues useIndex False regexPattern kwds =
          Inr (df\<lparr>rows := filter Q (rows df)\<rparr>)"
    and x: "frameFilter c df selection kwdValues useIndex True regexPattern kwds =
          Inr (df\<lparr>rows := filter (\<lambda>r. \<not> Q r) (rows df)\<rparr>)"
    by blast
  have "length (filter Q (rows df)) + length (filter (\<lambda>r. \<not> Q r) (rows df)) = length (rows df)"
    by (rule sum_length_filter_compl)
  with s x show ?thesis by auto
qed

text \<open>
  The lemma at the general resource table, with the class \<open>FACILITY\<close> on the first index
  level and the column criterion \<open>GRBD_UACC = NONE\<close>: select returns the two rows of the
  class, exclude the third row.
\<close>

lemma partition_without_match_example:
  "frameFilter demo gr_profiles [SelStr ''FACILITY''] [] True False False
       [(''GRBD_UACC'', SelStr ''NONE'')] = Inr (gr_profiles\<lparr>rows := take 2 (rows gr_profiles)\<rparr>)
   \<and> frameFilter demo gr_profiles [SelStr ''FACILITY''] [] True True False
       [(''GRBD_UACC'', SelStr ''NONE'')] = Inr (gr_profiles\<lparr>rows := drop 2 (rows gr_profiles)\<rparr>)
   \<and> set (take 2 (rows gr_profiles)) \<inter> set (drop 2 (rows gr_profiles)) = {}
   \<and> set (take 2 (rows gr_profiles)) \<union> set (drop 2 (rows gr_profiles)) = set (rows gr_profiles)"
proof -
  have n: "\<forall>kw \<in> set [(''GRBD_UACC'', SelStr ''NONE'')]. fst kw \<noteq> ''match''" by simp
  have a: "frameFilter demo gr_profiles [SelStr ''FACILITY''] [] True False False
       [(''GRBD_UACC'', SelStr ''NONE'')] = Inr (gr_profiles\<lparr>rows := take 2 (rows gr_profiles)\<rparr>)"
    by code_simp
  have b: "frameFilter demo gr_profiles [SelStr ''FACILITY''] [] True True False
       [(''GRBD_UACC'', SelStr ''NONE'')] = Inr (gr_profiles\<lparr>rows := drop 2 (rows gr_profiles)\<rparr>)"
    by code_simp
  from partition_without_match [OF n, of demo gr_profiles "[SelStr ''FACILITY'']" "[]" True False]
    a b
  have "set (rows (gr_profiles\<lparr>rows := take 2 (rows gr_profiles)\<rparr>))
          \<inter> set (rows (gr_profiles\<lparr>rows := drop 2 (rows gr_profiles)\<rparr>)) = {}
      \<and> set (rows (gr_profiles\<lparr>rows := take 2 (rows gr_profiles)\<rparr>))
          \<union> set (rows (gr_profiles\<lparr>rows := drop 2 (rows gr_profiles)\<rparr>)) = set (rows gr_profiles)"
    by blast
  with a b show ?thesis by simp
qed

text \<open>
  C1: the call with \<^verbatim>\<open>exclude=False\<close> and the call with \<^verbatim>\<open>exclude=True\<close> of the same criteria
  should split the rows of the table in two. The method does not do so when the keyword
  \<^verbatim>\<open>match\<close> comes after a criterion that has narrowed the frame. On the data set profile
  table, with the positional value \<open>SYS1.PROCLIB\<close> on the index and the keyword
  \<^verbatim>\<open>match\<close> for the name \<open>SYS1.PROCLIB\<close>, select mode narrows the frame to the profile
  \<open>SYS1.PROCLIB\<close> first and resolves the name on what is left (line 65), so it returns
  that profile; exclude mode resolves the name on the whole table (line 63), where the
  first match is \<open>SYS1.*\<close>, finds no row that meets both criteria, and returns every row.
  The profile \<open>SYS1.PROCLIB\<close> is in both results, against the method's own description of
  exclude (the entries that match all criteria are left out).
\<close>

theorem select_exclude_overlap:
  "frameFilter demo ds_profiles [SelStr ''SYS1.PROCLIB''] [] True False False
       [(''match'', SelStr ''SYS1.PROCLIB'')] =
     Inr (ds_profiles\<lparr>rows := [\<lparr>idx = [''SYS1.PROCLIB''], cells = [''SYS1.PROCLIB'', ''NONE'']\<rparr>]\<rparr>)
   \<and> frameFilter demo ds_profiles [SelStr ''SYS1.PROCLIB''] [] True True False
       [(''match'', SelStr ''SYS1.PROCLIB'')] = Inr ds_profiles
   \<and> \<lparr>idx = [''SYS1.PROCLIB''], cells = [''SYS1.PROCLIB'', ''NONE'']\<rparr> \<in> set (rows ds_profiles)"
  by code_simp

section \<open>Narrowing at once and the conjunction of the masks\<close>

text \<open>
  Without the keyword \<^verbatim>\<open>match\<close>, select mode is the conjunction: applying each mask at
  once and evaluating the later criteria on the narrowed table gives the very result (and
  the very error, when there is one) of computing every mask against the original table
  and keeping the rows where all masks are true.
\<close>

lemma conjunction_without_match:
  assumes "\<forall>kw \<in> set kwds. fst kw \<noteq> ''match''"
  shows "frameFilter c df selection kwdValues useIndex False regexPattern kwds =
           conjunction_select c df selection kwdValues useIndex regexPattern kwds"
  using frameFilter_partition [OF assms, of c df selection kwdValues useIndex regexPattern]
  by auto

text \<open>The lemma at the general resource table with the criteria of the example above.\<close>

lemma conjunction_without_match_example:
  "frameFilter demo gr_profiles [SelStr ''FACILITY''] [] True False False
       [(''GRBD_UACC'', SelStr ''NONE'')] =
     conjunction_select demo gr_profiles [SelStr ''FACILITY''] [] True False
       [(''GRBD_UACC'', SelStr ''NONE'')]
   \<and> conjunction_select demo gr_profiles [SelStr ''FACILITY''] [] True False
       [(''GRBD_UACC'', SelStr ''NONE'')] = Inr (gr_profiles\<lparr>rows := take 2 (rows gr_profiles)\<rparr>)"
proof -
  have n: "\<forall>kw \<in> set [(''GRBD_UACC'', SelStr ''NONE'')]. fst kw \<noteq> ''match''" by simp
  have a: "conjunction_select demo gr_profiles [SelStr ''FACILITY''] [] True False
       [(''GRBD_UACC'', SelStr ''NONE'')] = Inr (gr_profiles\<lparr>rows := take 2 (rows gr_profiles)\<rparr>)"
    by code_simp
  from conjunction_without_match [OF n, of demo gr_profiles "[SelStr ''FACILITY'']" "[]" True False]
    a
  show ?thesis by simp
qed

text \<open>
  C2: narrowing the frame after each criterion should be a saving of work only, with the
  result of the conjunction of all masks over the whole table. The method gives another
  result when the keyword \<^verbatim>\<open>match\<close> comes after a criterion that has narrowed the frame:
  on the data set profile table, with the positional value \<open>SYS1.PROCLIB\<close> on the index
  and the keyword \<^verbatim>\<open>match\<close> for the name \<open>SYS1.PROCLIB\<close>, the narrowed frame resolves the
  name to the profile \<open>SYS1.PROCLIB\<close> and the call returns it, while the whole table resolves
  the name to \<open>SYS1.*\<close>, whose mask no row shares with the mask of the positional value:
  the conjunction keeps no row.
\<close>

theorem narrowing_changes_match:
  "frameFilter demo ds_profiles [SelStr ''SYS1.PROCLIB''] [] True False False
       [(''match'', SelStr ''SYS1.PROCLIB'')] =
     Inr (ds_profiles\<lparr>rows := [\<lparr>idx = [''SYS1.PROCLIB''], cells = [''SYS1.PROCLIB'', ''NONE'']\<rparr>]\<rparr>)
   \<and> conjunction_select demo ds_profiles [SelStr ''SYS1.PROCLIB''] [] True False
       [(''match'', SelStr ''SYS1.PROCLIB'')] = Inr (ds_profiles\<lparr>rows := []\<rparr>)
   \<and> match demo ds_profiles [SelStr ''SYS1.PROCLIB''] =
       Inr (ds_profiles\<lparr>rows := [\<lparr>idx = [''SYS1.*''], cells = [''SYS1.*'', ''READ'']\<rparr>]\<rparr>)"
  by code_simp

section \<open>The first matching profile of a class\<close>

text \<open>
  C3, as the code has it: on a general resource table whose scope of search (the whole
  table, or the class slice) has the rows of every class standing together and no empty
  class label, every row that \<^verbatim>\<open>match\<close> returns matches one of the queried names and
  carries the (class, resource) pair of the first row matching that name in its class.
  With one queried name, two returned rows of one class carry one pair: no row of a
  second matching profile of the class is returned.
\<close>

theorem first_profile_per_class:
  assumes "fieldPrefix df = Text p" and "take 2 p = ''GR''"
    and "gr_scope c df selection = Inr (start, a)"
    and "contiguous (map (label_class start) (rows start))"
    and "\<forall>r \<in> set (rows start). label_class start r \<noteq> Some []"
    and "match c df selection = Inr t"
  shows "(\<forall>r \<in> set (rows t).
            \<exists>n. SelStr n \<in> set (listMe a) \<and> first_in_class c start (p @ ''NAME'') n r)
       \<and> (\<forall>n. a = SelStr n \<longrightarrow>
            (\<forall>r1 \<in> set (rows t). \<forall>r2 \<in> set (rows t).
               label_class start r1 = label_class start r2 \<longrightarrow>
               label_pair start r1 = label_pair start r2))"
proof -
  have main: "\<forall>r \<in> set (rows t).
            \<exists>n. SelStr n \<in> set (listMe a) \<and> first_in_class c start (p @ ''NAME'') n r"
  proof (cases "empty start")
    case True
    with assms(1,2,3,6) have "t = collect df []" by (simp add: match_def)
    then show ?thesis by (simp add: collect_def head_def)
  next
    case False
    with assms(1,2,3,6) obtain st where
      st: "gr_loop c p start (listMe a) ([], None) = Inr st" and t: "t = collect df (fst st)"
      by (auto simp: match_def split: sum.splits)
    have "\<forall>f \<in> set (fst st). \<forall>r \<in> set (rows f).
           \<exists>n. SelStr n \<in> set (listMe a) \<and> first_in_class c start (p @ ''NAME'') n r"
      using gr_loop_first [OF st assms(4,5), of "set (listMe a)"] by simp
    with t show ?thesis by (auto dest!: rows_collect)
  qed
  have single: "\<forall>n. a = SelStr n \<longrightarrow>
            (\<forall>r1 \<in> set (rows t). \<forall>r2 \<in> set (rows t).
               label_class start r1 = label_class start r2 \<longrightarrow>
               label_pair start r1 = label_pair start r2)"
  proof (intro allI impI ballI)
    fix n r1 r2
    assume a: "a = SelStr n" and r1: "r1 \<in> set (rows t)" and r2: "r2 \<in> set (rows t)"
      and cls: "label_class start r1 = label_class start r2"
    from a main r1 have f1: "first_in_class c start (p @ ''NAME'') n r1"
      by (auto simp: listMe_def)
    from a main r2 have f2: "first_in_class c start (p @ ''NAME'') n r2"
      by (auto simp: listMe_def)
    from f1 f2 cls show "label_pair start r1 = label_pair start r2"
      by (rule first_in_class_same)
  qed
  from main single show ?thesis by blast
qed


text \<open>
  The theorem at the general resource table, with the class \<open>FACILITY\<close> and the name
  \<open>BPX.SUPERUSER\<close>: the class slice holds \<open>BPX.*\<close> and \<open>BPX.SUPERUSER\<close>, both match, and
  the first one alone is returned.
\<close>

theorem first_profile_per_class_witness:
  "match demo gr_profiles [SelStr ''FACILITY'', SelStr ''BPX.SUPERUSER''] =
     Inr (gr_profiles\<lparr>rows := [rows gr_profiles ! 0]\<rparr>)
   \<and> first_in_class demo (gr_profiles\<lparr>rows := take 2 (rows gr_profiles)\<rparr>) ''GRBD_NAME''
       ''BPX.SUPERUSER'' (rows gr_profiles ! 0)"
proof -
  let ?start = "gr_profiles\<lparr>rows := take 2 (rows gr_profiles)\<rparr>"
  have a: "fieldPrefix gr_profiles = Text ''GRBD_''" by (simp add: gr_profiles_def)
  have b: "take 2 ''GRBD_'' = ''GR''" by simp
  have d: "gr_scope demo gr_profiles [SelStr ''FACILITY'', SelStr ''BPX.SUPERUSER''] =
             Inr (?start, SelStr ''BPX.SUPERUSER'')"
    by code_simp
  have e: "contiguous (map (label_class ?start) (rows ?start))" by code_simp
  have f: "\<forall>r \<in> set (rows ?start). label_class ?start r \<noteq> Some []" by code_simp
  have g: "match demo gr_profiles [SelStr ''FACILITY'', SelStr ''BPX.SUPERUSER''] =
     Inr (gr_profiles\<lparr>rows := [rows gr_profiles ! 0]\<rparr>)"
    by code_simp
  from first_profile_per_class [OF a b d e f g]
  have "first_in_class demo ?start (''GRBD_'' @ ''NAME'') ''BPX.SUPERUSER'' (rows gr_profiles ! 0)"
    by (simp add: listMe_def)
  with g show ?thesis by simp
qed

text \<open>
  C3 as the claim states it (only the first matching profile per class survives) fails on
  a table whose rows of class \<open>FACILITY\<close> do not stand together: the walk takes the class
  as new when it comes back after \<open>UNIXPRIV\<close>, and the result holds the rows of both
  \<open>FACILITY\<close> profiles, \<open>BPX.*\<close> and \<open>BPX.SUPERUSER\<close>.
\<close>

theorem first_profile_per_class_counterexample:
  "match demo gr_unsorted [SelStr ''BPX.SUPERUSER''] = Inr gr_unsorted
   \<and> map idx (rows gr_unsorted) =
       [[''FACILITY'', ''BPX.*''], [''UNIXPRIV'', ''BPX.SUPERUSER''],
        [''FACILITY'', ''BPX.SUPERUSER'']]"
  by code_simp

end
